theory Spec2Isabelle
  imports Main "HOL-Library.Word"
begin

section \<open>Strings of the platform\<close>

text \<open>
  An ECMAScript string is a sequence of 16-bit code units. String literals of the source
  are written with \<open>js\<close>, which maps each (ASCII) character to its code unit.
\<close>

type_synonym code_unit = "16 word"
type_synonym jsstring = "code_unit list"

definition js :: "string \<Rightarrow> jsstring" where
  "js s = map (\<lambda>c. of_nat (of_char c)) s"

text \<open>
  \<open>String.prototype.trim\<close> removes WhiteSpace and LineTerminator code units from both ends:
  TAB, LF, VT, FF, CR, SP, NBSP, U+1680, U+2000..U+200A, U+2028, U+2029, U+202F, U+205F,
  U+3000 and U+FEFF. The same set is what \<open>\s\<close> matches in a regular expression.
\<close>

definition isWhiteSpace :: "code_unit \<Rightarrow> bool" where
  "isWhiteSpace c \<longleftrightarrow>
     c = 0x09 \<or> c = 0x0A \<or> c = 0x0B \<or> c = 0x0C \<or> c = 0x0D \<or> c = 0x20 \<or> c = 0xA0 \<or>
     c = 0x1680 \<or> (0x2000 \<le> c \<and> c \<le> 0x200A) \<or> c = 0x2028 \<or> c = 0x2029 \<or>
     c = 0x202F \<or> c = 0x205F \<or> c = 0x3000 \<or> c = 0xFEFF"

definition trim :: "jsstring \<Rightarrow> jsstring" where
  "trim s = rev (dropWhile isWhiteSpace (rev (dropWhile isWhiteSpace s)))"

section \<open>JSON values and the platform's parser\<close>

text \<open>
  \<open>JSON.parse\<close> is the platform's, not the program's; it is modelled here after the JSON
  grammar (ECMA-404), so that the handlers can be evaluated on concrete texts.

  A JSON value as \<open>JSON.parse\<close> returns it. An object lists its members in the order of
  its own keys: the keys that are array indices first, in ascending order, then the other
  keys in the order in which the text introduces them (\<open>object_of\<close> below).

  A number is kept as the literal that denotes it and stands for the double to which the
  platform rounds that literal, so two equal literals are the same number. The program
  never computes with a number. What happens to a number depends on its double in three
  respects only: whether it is zero (ToBoolean), whether it is finite and whether it is
  negative zero (\<open>JSON.stringify\<close>). The three are decided from the literal, below.
\<close>

datatype json =
    JNull
  | JBool bool
  | JNum jsstring
  | JStr jsstring
  | JArr "json list"
  | JObj "(jsstring \<times> json) list"

text \<open>The four white space code units of the JSON grammar: TAB, LF, CR, SP.\<close>

definition isJSONWhiteSpace :: "code_unit \<Rightarrow> bool" where
  "isJSONWhiteSpace c \<longleftrightarrow> c = 0x09 \<or> c = 0x0A \<or> c = 0x0D \<or> c = 0x20"

definition skip_ws :: "jsstring \<Rightarrow> jsstring" where
  "skip_ws s = dropWhile isJSONWhiteSpace s"

definition isDigit :: "code_unit \<Rightarrow> bool" where
  "isDigit c \<longleftrightarrow> 0x30 \<le> c \<and> c \<le> 0x39"

definition hexval :: "code_unit \<Rightarrow> code_unit option" where
  "hexval c =
     (if 0x30 \<le> c \<and> c \<le> 0x39 then Some (c - 0x30)
      else if 0x41 \<le> c \<and> c \<le> 0x46 then Some (c - 0x37)
      else if 0x61 \<le> c \<and> c \<le> 0x66 then Some (c - 0x57)
      else None)"

definition hex4 :: "code_unit \<Rightarrow> code_unit \<Rightarrow> code_unit \<Rightarrow> code_unit \<Rightarrow> code_unit option" where
  "hex4 a b c d =
     (case hexval a of None \<Rightarrow> None | Some x \<Rightarrow>
       (case hexval b of None \<Rightarrow> None | Some y \<Rightarrow>
         (case hexval c of None \<Rightarrow> None | Some z \<Rightarrow>
           (case hexval d of None \<Rightarrow> None | Some u \<Rightarrow>
              Some (((x * 16 + y) * 16 + z) * 16 + u)))))"

text \<open>The single-character escapes: quote, backslash, slash, b, f, n, r, t.\<close>

definition unescape :: "code_unit \<Rightarrow> code_unit option" where
  "unescape e =
     (if e = 0x22 then Some 0x22
      else if e = 0x5C then Some 0x5C
      else if e = 0x2F then Some 0x2F
      else if e = 0x62 then Some 0x08
      else if e = 0x66 then Some 0x0C
      else if e = 0x6E then Some 0x0A
      else if e = 0x72 then Some 0x0D
      else if e = 0x74 then Some 0x09
      else None)"

text \<open>
  The characters of a string literal after its opening quote, up to and including the
  closing quote: the decoded string and the rest of the input. Control characters below
  U+0020 are not allowed unescaped.
\<close>

fun parse_chars :: "jsstring \<Rightarrow> (jsstring \<times> jsstring) option" where
  "parse_chars [] = None"
| "parse_chars (c # t) =
     (if c = 0x22 then Some ([], t)
      else if c = 0x5C then
        (case t of
           [] \<Rightarrow> None
         | e # t1 \<Rightarrow>
             if e = 0x75 then
               (case t1 of
                  h1 # h2 # h3 # h4 # t2 \<Rightarrow>
                    (case hex4 h1 h2 h3 h4 of
                       None \<Rightarrow> None
                     | Some u \<Rightarrow>
                         (case parse_chars t2 of
                            None \<Rightarrow> None
                          | Some (str, r) \<Rightarrow> Some (u # str, r)))
                | _ \<Rightarrow> None)
             else
               (case unescape e of
                  None \<Rightarrow> None
                | Some u \<Rightarrow>
                    (case parse_chars t1 of
                       None \<Rightarrow> None
                     | Some (str, r) \<Rightarrow> Some (u # str, r))))
      else if c < 0x20 then None
      else
        (case parse_chars t of
           None \<Rightarrow> None
         | Some (str, r) \<Rightarrow> Some (c # str, r)))"

text \<open>
  A number literal: an optional minus, an integer part (a single 0, or a non-zero digit
  and more digits), an optional fraction, an optional exponent. Each scanner returns the
  characters it read and the rest.
\<close>

definition scan_int :: "jsstring \<Rightarrow> (jsstring \<times> jsstring) option" where
  "scan_int s =
     (case s of
        [] \<Rightarrow> None
      | c # t \<Rightarrow>
          if c = 0x30 then Some ([c], t)
          else if isDigit c then Some (c # takeWhile isDigit t, dropWhile isDigit t)
          else None)"

definition scan_frac :: "jsstring \<Rightarrow> (jsstring \<times> jsstring) option" where
  "scan_frac s =
     (case s of
        [] \<Rightarrow> Some ([], s)
      | c # t \<Rightarrow>
          if c = 0x2E then
            (if takeWhile isDigit t = [] then None
             else Some (c # takeWhile isDigit t, dropWhile isDigit t))
          else Some ([], s))"

definition scan_sign :: "jsstring \<Rightarrow> jsstring \<times> jsstring" where
  "scan_sign s =
     (case s of
        [] \<Rightarrow> ([], s)
      | c # t \<Rightarrow> if c = 0x2B \<or> c = 0x2D then ([c], t) else ([], s))"

definition scan_exp :: "jsstring \<Rightarrow> (jsstring \<times> jsstring) option" where
  "scan_exp s =
     (case s of
        [] \<Rightarrow> Some ([], s)
      | c # t \<Rightarrow>
          if c = 0x65 \<or> c = 0x45 then
            (case scan_sign t of
               (sg, t1) \<Rightarrow>
                 if takeWhile isDigit t1 = [] then None
                 else Some (c # sg @ takeWhile isDigit t1, dropWhile isDigit t1))
          else Some ([], s))"

definition scan_minus :: "jsstring \<Rightarrow> jsstring \<times> jsstring" where
  "scan_minus s =
     (case s of
        [] \<Rightarrow> ([], s)
      | c # t \<Rightarrow> if c = 0x2D then ([c], t) else ([], s))"

definition scan_number :: "jsstring \<Rightarrow> (jsstring \<times> jsstring) option" where
  "scan_number s =
     (case scan_minus s of
        (sg, s1) \<Rightarrow>
          (case scan_int s1 of
             None \<Rightarrow> None
           | Some (i, s2) \<Rightarrow>
               (case scan_frac s2 of
                  None \<Rightarrow> None
                | Some (f, s3) \<Rightarrow>
                    (case scan_exp s3 of
                       None \<Rightarrow> None
                     | Some (e, s4) \<Rightarrow> Some (sg @ i @ f @ e, s4)))))"

definition literal :: "jsstring \<Rightarrow> json \<Rightarrow> jsstring \<Rightarrow> (json \<times> jsstring) option" where
  "literal w v s = (if take (length w) s = w then Some (v, drop (length w) s) else None)"

text \<open>
  A number literal denotes the decimal number \<open>significand * 10 ^ exponent\<close>: the
  significand is the integer written by the digits before the exponent part, the decimal
  point dropped, and the exponent is the one written, less the number of digits of the
  fraction. The minus sign of the literal is kept apart.
\<close>

definition digit_value :: "code_unit \<Rightarrow> int" where
  "digit_value c = uint (c - 0x30)"

definition digits_value :: "jsstring \<Rightarrow> int" where
  "digits_value ds = foldl (\<lambda>a c. 10 * a + digit_value c) 0 ds"

definition mantissa_text :: "jsstring \<Rightarrow> jsstring" where
  "mantissa_text n = takeWhile (\<lambda>c. c \<noteq> 0x65 \<and> c \<noteq> 0x45) n"

definition exponent_text :: "jsstring \<Rightarrow> jsstring" where
  "exponent_text n = drop 1 (dropWhile (\<lambda>c. c \<noteq> 0x65 \<and> c \<noteq> 0x45) n)"

definition fraction_digits :: "jsstring \<Rightarrow> jsstring" where
  "fraction_digits n = filter isDigit (dropWhile (\<lambda>c. c \<noteq> 0x2E) (mantissa_text n))"

definition significand :: "jsstring \<Rightarrow> int" where
  "significand n = digits_value (filter isDigit (mantissa_text n))"

definition exponent :: "jsstring \<Rightarrow> int" where
  "exponent n =
     (if exponent_text n \<noteq> [] \<and> hd (exponent_text n) = 0x2D
      then - digits_value (filter isDigit (exponent_text n))
      else digits_value (filter isDigit (exponent_text n)))
     - int (length (fraction_digits n))"

definition negative :: "jsstring \<Rightarrow> bool" where
  "negative n \<longleftrightarrow> n \<noteq> [] \<and> hd n = 0x2D"

text \<open>
  The platform rounds the decimal number to the nearest double, a tie to the double with
  an even mantissa. The largest double is \<open>2 ^ 1024 - 2 ^ 971\<close>, with an odd mantissa, so a
  literal of magnitude \<open>2 ^ 1024 - 2 ^ 970\<close> or more denotes an infinity. The smallest
  positive double is \<open>1 / 2 ^ 1074\<close>, with an odd mantissa, so a literal of magnitude
  \<open>1 / 2 ^ 1075\<close> or less denotes a zero: negative zero when the literal has the minus sign.
\<close>

definition rounds_to_infinity :: "jsstring \<Rightarrow> bool" where
  "rounds_to_infinity n \<longleftrightarrow>
     (if 0 \<le> exponent n
      then 2 ^ 1024 - 2 ^ 970 \<le> significand n * 10 ^ nat (exponent n)
      else (2 ^ 1024 - 2 ^ 970) * 10 ^ nat (- exponent n) \<le> significand n)"

definition rounds_to_zero :: "jsstring \<Rightarrow> bool" where
  "rounds_to_zero n \<longleftrightarrow>
     (if 0 \<le> exponent n
      then significand n = 0
      else significand n * 2 ^ 1075 \<le> 10 ^ nat (- exponent n))"

text \<open>
  A member whose key is already present replaces the value and keeps the key's place;
  a new key goes to the end. The object then lists its keys that are array indices (the
  canonical numerals of the integers below \<open>2 ^ 32 - 1\<close>) first, in ascending order, and
  its other keys after them, in the order of insertion.
\<close>

definition array_index :: "jsstring \<Rightarrow> bool" where
  "array_index k \<longleftrightarrow>
     k \<noteq> [] \<and> list_all isDigit k \<and> (if hd k = 0x30 then k = [0x30] else True) \<and>
     digits_value k < 2 ^ 32 - 1"

fun obj_put :: "jsstring \<Rightarrow> json \<Rightarrow> (jsstring \<times> json) list \<Rightarrow> (jsstring \<times> json) list" where
  "obj_put k v [] = [(k, v)]"
| "obj_put k v (p # ps) = (if fst p = k then (k, v) # ps else p # obj_put k v ps)"

definition own_keys_order :: "(jsstring \<times> json) list \<Rightarrow> (jsstring \<times> json) list" where
  "own_keys_order obj =
     sort_key (\<lambda>m. digits_value (fst m)) (filter (\<lambda>m. array_index (fst m)) obj) @
     filter (\<lambda>m. \<not> array_index (fst m)) obj"

definition object_of :: "(jsstring \<times> json) list \<Rightarrow> (jsstring \<times> json) list" where
  "object_of ms = own_keys_order (foldl (\<lambda>obj (k, v). obj_put k v obj) [] ms)"

text \<open>
  The recursive descent itself. The first argument bounds the depth of the recursion;
  \<open>JSON_parse\<close> passes the length of the text, which is always enough
  (\<open>JSON_parse_fuel\<close> below).
\<close>

fun parse_value :: "nat \<Rightarrow> jsstring \<Rightarrow> (json \<times> jsstring) option"
  and parse_elements :: "nat \<Rightarrow> jsstring \<Rightarrow> (json list \<times> jsstring) option"
  and parse_members :: "nat \<Rightarrow> jsstring \<Rightarrow> ((jsstring \<times> json) list \<times> jsstring) option"
where
  "parse_value 0 s = None"
| "parse_value (Suc n) s =
     (case s of
        [] \<Rightarrow> None
      | c # t \<Rightarrow>
          if c = 0x7B then
            (case skip_ws t of
               [] \<Rightarrow> None
             | d # u \<Rightarrow>
                 if d = 0x7D then Some (JObj [], u)
                 else
                   (case parse_members n (d # u) of
                      None \<Rightarrow> None
                    | Some (ms, r) \<Rightarrow> Some (JObj (object_of ms), r)))
          else if c = 0x5B then
            (case skip_ws t of
               [] \<Rightarrow> None
             | d # u \<Rightarrow>
                 if d = 0x5D then Some (JArr [], u)
                 else
                   (case parse_elements n (d # u) of
                      None \<Rightarrow> None
                    | Some (vs, r) \<Rightarrow> Some (JArr vs, r)))
          else if c = 0x22 then
            (case parse_chars t of
               None \<Rightarrow> None
             | Some (str, r) \<Rightarrow> Some (JStr str, r))
          else if c = 0x74 then literal (js ''true'') (JBool True) s
          else if c = 0x66 then literal (js ''false'') (JBool False) s
          else if c = 0x6E then literal (js ''null'') JNull s
          else
            (case scan_number s of
               None \<Rightarrow> None
             | Some (num, r) \<Rightarrow> Some (JNum num, r)))"
| "parse_elements 0 s = None"
| "parse_elements (Suc n) s =
     (case parse_value n s of
        None \<Rightarrow> None
      | Some (v, r) \<Rightarrow>
          (case skip_ws r of
             [] \<Rightarrow> None
           | c # t \<Rightarrow>
               if c = 0x2C then
                 (case parse_elements n (skip_ws t) of
                    None \<Rightarrow> None
                  | Some (vs, r1) \<Rightarrow> Some (v # vs, r1))
               else if c = 0x5D then Some ([v], t)
               else None))"
| "parse_members 0 s = None"
| "parse_members (Suc n) s =
     (case s of
        [] \<Rightarrow> None
      | q # t \<Rightarrow>
          if q \<noteq> 0x22 then None
          else
            (case parse_chars t of
               None \<Rightarrow> None
             | Some (k, r) \<Rightarrow>
                 (case skip_ws r of
                    [] \<Rightarrow> None
                  | c # t1 \<Rightarrow>
                      if c \<noteq> 0x3A then None
                      else
                        (case parse_value n (skip_ws t1) of
                           None \<Rightarrow> None
                         | Some (v, r1) \<Rightarrow>
                             (case skip_ws r1 of
                                [] \<Rightarrow> None
                              | d # t2 \<Rightarrow>
                                  if d = 0x2C then
                                    (case parse_members n (skip_ws t2) of
                                       None \<Rightarrow> None
                                     | Some (ms, r2) \<Rightarrow> Some ((k, v) # ms, r2))
                                  else if d = 0x7D then Some ([(k, v)], t2)
                                  else None)))))"

text \<open>
  \<open>JSON.parse\<close>: white space, one value, white space, end of text. \<open>None\<close> is the
  SyntaxError.
\<close>

definition JSON_parse :: "jsstring \<Rightarrow> json option" where
  "JSON_parse s =
     (case parse_value (length (skip_ws s)) (skip_ws s) of
        None \<Rightarrow> None
      | Some (v, r) \<Rightarrow> if skip_ws r = [] then Some v else None)"

section \<open>The analysis endpoint (src/app/api/analyze/route.ts)\<close>

subsection \<open>Values of the language\<close>

text \<open>ToBoolean: null, false, the two zeros and the empty string are falsy.\<close>

fun truthy :: "json \<Rightarrow> bool" where
  "truthy JNull = False"
| "truthy (JBool b) = b"
| "truthy (JNum n) = (\<not> rounds_to_zero n)"
| "truthy (JStr s) = (s \<noteq> [])"
| "truthy (JArr vs) = True"
| "truthy (JObj ms) = True"

text \<open>
  Reading a named property of a value that is not null; \<open>None\<close> is \<open>undefined\<close>. The
  names the program reads (\<open>prompt\<close>, \<open>error\<close>, \<open>improvedPrompt\<close>, \<open>overallScore\<close>,
  \<open>overallLabel\<close>, \<open>criteria\<close>) are defined on no prototype, so only an object
  can have them.
\<close>

definition get_prop :: "json \<Rightarrow> jsstring \<Rightarrow> json option" where
  "get_prop v k = (case v of JObj ms \<Rightarrow> map_of ms k | _ \<Rightarrow> None)"

text \<open>\<open>typeof\<close> of a value or of \<open>undefined\<close>.\<close>

definition js_typeof :: "json option \<Rightarrow> jsstring" where
  "js_typeof x =
     (case x of
        None \<Rightarrow> js ''undefined''
      | Some JNull \<Rightarrow> js ''object''
      | Some (JBool b) \<Rightarrow> js ''boolean''
      | Some (JNum n) \<Rightarrow> js ''number''
      | Some (JStr s) \<Rightarrow> js ''string''
      | Some (JArr vs) \<Rightarrow> js ''object''
      | Some (JObj ms) \<Rightarrow> js ''object'')"

subsection \<open>Module state\<close>

text \<open>
  \<open>apiKey\<close> is \<open>process.env.GOOGLE_API_KEY\<close>: a string, or \<open>undefined\<close> (\<open>None\<close>).
  \<open>genAI\<close> is the client built from it, or null when the key is falsy.
\<close>

datatype GoogleGenerativeAI = GoogleGenerativeAI jsstring

definition genAI :: "jsstring option \<Rightarrow> GoogleGenerativeAI option" where
  "genAI apiKey =
     (case apiKey of
        None \<Rightarrow> None
      | Some k \<Rightarrow> if k \<noteq> [] then Some (GoogleGenerativeAI k) else None)"

definition joinLines :: "string list \<Rightarrow> jsstring" where
  "joinLines ls = (case ls of [] \<Rightarrow> [] | l # rest \<Rightarrow> foldl (\<lambda>acc x. acc @ [0x0A] @ js x) (js l) rest)"

definition systemInstruction :: jsstring where
  \<open>systemInstruction = joinLines
     [''You are an expert prompt-engineering coach.'',
      ''You analyze user prompts using the following criteria:'',
      ''- Context: background info'',
      ''- Goal: what outcome the user wants'',
      ''- Format: structure of the output (bullets, list, table, slides, etc.)'',
      ''- Constraints: word count, tone, style, level'',
      ''- Examples: examples that show the desired style or structure'',
      '''',
      ''Return a JSON object only. Do not include any extra text, markdown, or explanations.'',
      ''The JSON MUST match this TypeScript type exactly:'',
      '''',
      ''interface CriterionScore {'',
      ''  id: "context" | "goal" | "format" | "constraints" | "examples";'',
      ''  label: string;           // human readable label'',
      ''  score: number;           // 0-100'',
      ''  level: "missing" | "weak" | "ok" | "strong";'',
      ''  feedback: string;        // short feedback specific to this criterion'',
      ''}'',
      '''',
      ''interface Analysis {'',
      ''  overallScore: number;      // 0-100'',
      ''  overallLabel: string;      // short summary e.g. "Excellent prompt", "Needs work"'',
      ''  criteria: CriterionScore[];'',
      ''  suggestions: string[];     // concrete, actionable suggestions for improvement'',
      ''  improvedPrompt: string;    // a rewritten, improved version of the user prompt'',
      ''};'',
      '''',
      ''Rules:'',
      ''- Grade strictly but fairly.'',
      ''- Use 0-100 for all scores.'',
      ''- Always fill all 5 criteria with the exact ids listed.'',
      ''- The improvedPrompt must preserve the user's intent but upgrade clarity, structure, and explicitness using the criteria above.'',
      ''- Respond with valid JSON only.'']\<close>

subsection \<open>The external model\<close>

text \<open>
  One call of \<open>generateContent\<close> on the model \<open>gemini-1.5-pro\<close>, with a single content of
  role \<open>user\<close> and a single text part. The model is outside the program: \<open>POST\<close> takes it
  as a function from the call to its reply. \<open>UpstreamError\<close> stands for every exception
  of \<open>getGenerativeModel\<close>, \<open>generateContent\<close> and \<open>result.response.text()\<close>.
\<close>

record model_call =
  call_client :: GoogleGenerativeAI
  call_model :: jsstring
  call_role :: jsstring
  call_text :: jsstring

datatype upstream_reply = UpstreamError | UpstreamText jsstring

subsection \<open>Requests and responses\<close>

text \<open>
  A request is the text of its body; \<open>request.json()\<close> parses it and throws (\<open>None\<close>)
  when the text is not JSON.
\<close>

record request =
  body_text :: jsstring

definition request_json :: "request \<Rightarrow> json option" where
  "request_json rq = JSON_parse (body_text rq)"

text \<open>
  \<open>new Response(JSON.stringify(v), {status, headers})\<close>: the field \<open>body\<close> holds the JSON
  value that the text of the body denotes, which is what the receiver reads from it.
\<close>

record response =
  status :: nat
  headers :: "(jsstring \<times> jsstring) list"
  body :: json

definition json_response :: "nat \<Rightarrow> json \<Rightarrow> response" where
  "json_response st v =
     \<lparr>status = st, headers = [(js ''Content-Type'', js ''application/json'')], body = v\<rparr>"

definition error_body :: "string \<Rightarrow> json" where
  "error_body msg = JObj [(js ''error'', JStr (js msg))]"

text \<open>
  \<open>JSON.stringify\<close> is the platform's. Its text is not modelled, only the value that the
  text denotes (\<open>serialised\<close>): a number that is not finite is written \<open>null\<close>, negative
  zero is written \<open>0\<close>, and every other number is written in a form that reads back as the
  same double; null, booleans and strings are written as themselves; arrays and objects
  are written element by element, the members in the order of the object. An object of
  strings, such as the handler builds for its errors, is therefore written as itself, and
  is given to \<open>json_response\<close> as it is.

  \<open>JSON.stringify\<close> descends along the nesting of the value and throws a RangeError when
  the stack of the engine is exhausted. Which values are nested too deeply is the
  engine's: \<open>POST\<close> takes the test as its parameter \<open>too_deep\<close>.
\<close>

fun serialised :: "json \<Rightarrow> json" where
  "serialised JNull = JNull"
| "serialised (JBool b) = JBool b"
| "serialised (JNum n) =
     (if rounds_to_infinity n then JNull
      else if rounds_to_zero n \<and> negative n then JNum (js ''0'')
      else JNum n)"
| "serialised (JStr s) = JStr s"
| "serialised (JArr vs) = JArr (map serialised vs)"
| "serialised (JObj ms) = JObj (map (\<lambda>(k, v). (k, serialised v)) ms)"

subsection \<open>Cleaning the model's text\<close>

text \<open>
  \<open>text.trim().replace(/^```json\s*/i, "").replace(/```$/i, "")\<close>. The first pattern
  matches three backticks at the start, the letters j, s, o, n in either case, and all white
  space that follows; the second matches three backticks at the very end.
\<close>

definition fence :: jsstring where
  "fence = [0x60, 0x60, 0x60]"

definition json_tag :: "jsstring \<Rightarrow> bool" where
  "json_tag t \<longleftrightarrow>
     (case t of
        [a, b, c, d] \<Rightarrow>
          (a = 0x6A \<or> a = 0x4A) \<and> (b = 0x73 \<or> b = 0x53) \<and>
          (c = 0x6F \<or> c = 0x4F) \<and> (d = 0x6E \<or> d = 0x4E)
      | _ \<Rightarrow> False)"

definition strip_open_fence :: "jsstring \<Rightarrow> jsstring" where
  "strip_open_fence s =
     (if take 3 s = fence \<and> json_tag (take 4 (drop 3 s))
      then dropWhile isWhiteSpace (drop 7 s) else s)"

definition strip_close_fence :: "jsstring \<Rightarrow> jsstring" where
  "strip_close_fence s =
     (if 3 \<le> length s \<and> drop (length s - 3) s = fence
      then take (length s - 3) s else s)"

definition cleaned :: "jsstring \<Rightarrow> jsstring" where
  "cleaned t = strip_close_fence (strip_open_fence (trim t))"

subsection \<open>The handler\<close>

definition missing_key_message :: string where
  "missing_key_message =
     ''Missing GOOGLE_API_KEY. Set it in your server environment (e.g. .env.local).''"

definition prompt_required_message :: string where
  "prompt_required_message = ''Field 'prompt' (non-empty string) is required.''"

text \<open>
  The test \<open>!prompt || typeof prompt !== "string" || !prompt.trim()\<close> on the property
  read from the body.
\<close>

definition prompt_rejected :: "json option \<Rightarrow> bool" where
  "prompt_rejected p \<longleftrightarrow>
     (case p of None \<Rightarrow> True | Some v \<Rightarrow> \<not> truthy v) \<or>
     js_typeof p \<noteq> js ''string'' \<or>
     (case p of Some (JStr s) \<Rightarrow> trim s = [] | _ \<Rightarrow> True)"

definition generate_call :: "GoogleGenerativeAI \<Rightarrow> jsstring \<Rightarrow> model_call" where
  "generate_call client p =
     \<lparr>call_client = client, call_model = js ''gemini-1.5-pro'', call_role = js ''user'',
      call_text = systemInstruction @ [0x0A, 0x0A] @ js ''USER_PROMPT:'' @ [0x0A] @ p\<rparr>"

text \<open>
  The handler returns a response or lets an exception escape. The only operation outside
  a \<open>try\<close> that can throw is the destructuring \<open>const { prompt } = ...\<close>, which throws a
  TypeError on null. The call of the model, the parse of its text and the serialisation
  of the parsed value are all inside the outer \<open>try\<close>, whose \<open>catch\<close> answers 500. The
  lines written to the console are not modelled.
\<close>

datatype exception = TypeError

definition destructure :: "json \<Rightarrow> jsstring \<Rightarrow> exception + json option" where
  "destructure v k = (if v = JNull then Inl TypeError else Inr (get_prop v k))"

definition POST ::
  "jsstring option \<Rightarrow> (json \<Rightarrow> bool) \<Rightarrow> (model_call \<Rightarrow> upstream_reply) \<Rightarrow> request \<Rightarrow>
   exception + response" where
  "POST apiKey too_deep upstream rq =
     (case genAI apiKey of
        None \<Rightarrow> Inr (json_response 500 (error_body missing_key_message))
      | Some client \<Rightarrow>
          if apiKey = None \<or> apiKey = Some [] then
            Inr (json_response 500 (error_body missing_key_message))
          else
            (case request_json rq of
               None \<Rightarrow> Inr (json_response 400 (error_body ''Invalid JSON body.''))
             | Some b \<Rightarrow>
                 (case destructure (if truthy b then b else JObj []) (js ''prompt'') of
                    Inl e \<Rightarrow> Inl e
                  | Inr p \<Rightarrow>
                      if prompt_rejected p then
                        Inr (json_response 400 (error_body prompt_required_message))
                      else
                        (case p of
                           Some (JStr s) \<Rightarrow>
                             (case upstream (generate_call client s) of
                                UpstreamError \<Rightarrow>
                                  Inr (json_response 500
                                         (error_body ''Error while calling Gemini API.''))
                              | UpstreamText t \<Rightarrow>
                                  (case JSON_parse (cleaned t) of
                                     None \<Rightarrow>
                                       Inr (json_response 502
                                              (JObj [(js ''error'',
                                                      JStr (js ''Gemini returned an invalid JSON response.'')),
                                                     (js ''raw'', JStr (cleaned t))]))
                                   | Some j \<Rightarrow>
                                       if too_deep j then
                                         Inr (json_response 500
                                                (error_body ''Error while calling Gemini API.''))
                                       else Inr (json_response 200 (serialised j))))
                         | _ \<Rightarrow>
                             Inr (json_response 400 (error_body prompt_required_message))))))"

section \<open>The client surface (the page component)\<close>

subsection \<open>Static content\<close>

record Criterion =
  criterion_id :: jsstring
  criterion_label :: jsstring
  criterion_description :: jsstring
  criterion_hint :: jsstring

definition criteria :: "Criterion list" where
  \<open>criteria =
     [\<lparr>criterion_id = js ''context'', criterion_label = js ''Context'',
       criterion_description = js ''Background info that gives the AI situational awareness.'',
       criterion_hint = js ''Add who you are, who the audience is, and where this will be used.''\<rparr>,
      \<lparr>criterion_id = js ''goal'', criterion_label = js ''Goal'',
       criterion_description = js ''Clear outcome or objective for the AI.'',
       criterion_hint = js ''Finish the sentence: "By the end, I want the AI to help me..."''\<rparr>,
      \<lparr>criterion_id = js ''format'', criterion_label = js ''Format'',
       criterion_description =
         js ''Preferred structure of the answer (list, table, essay, slides'' @ [0x2026] @ js '').'',
       criterion_hint = js ''Specify bullets, sections, or tables you want.''\<rparr>,
      \<lparr>criterion_id = js ''constraints'', criterion_label = js ''Constraints'',
       criterion_description = js ''Limits like length, tone, level, or style.'',
       criterion_hint = js ''Mention tone (simple, friendly, formal), level, or word limit.''\<rparr>,
      \<lparr>criterion_id = js ''examples'', criterion_label = js ''Examples'',
       criterion_description = js ''Reference examples that show what good looks like.'',
       criterion_hint =
         js ''Paste 1'' @ [0x2013] @ js ''2 short examples of the style or structure you like.''\<rparr>]\<close>

subsection \<open>State\<close>

text \<open>
  The five \<open>useState\<close> cells. \<open>analysis\<close> is whatever JSON value the server sent last
  (the cast to \<open>AnalysisFromApi\<close> checks nothing), or null.
\<close>

record client_state =
  prompt :: jsstring
  analysis :: json
  isAnalyzing :: bool
  error :: "jsstring option"
  copied :: bool

definition initial_state :: client_state where
  "initial_state =
     \<lparr>prompt = joinLines
        [''You are an AI tutor.'',
         [],
         ''Task: Teach me the basics of prompt engineering.'',
         ''Context: I am a beginner who has used ChatGPT a few times but never designed prompts deliberately.'',
         ''Output format: Bullet-point mini lesson with short explanations.'',
         ''Tone/style: Simple, friendly, and practical.'',
         ''Constraints: Keep it under 300 words.'',
         ''Examples: Show 1 weak prompt and 1 improved prompt.''],
      analysis = JNull, isAnalyzing = False, error = None, copied = False\<rparr>"

subsection \<open>Values derived for rendering\<close>

text \<open>\<open>v?.k\<close> and \<open>x ?? d\<close>.\<close>

definition opt_chain :: "json \<Rightarrow> jsstring \<Rightarrow> json option" where
  "opt_chain v k = (if v = JNull then None else get_prop v k)"

definition nullish_or :: "json option \<Rightarrow> json \<Rightarrow> json" where
  "nullish_or x d = (case x of None \<Rightarrow> d | Some JNull \<Rightarrow> d | Some v \<Rightarrow> v)"

definition overallScore :: "client_state \<Rightarrow> json" where
  "overallScore st = nullish_or (opt_chain (analysis st) (js ''overallScore'')) (JNum (js ''0''))"

definition overallLabel :: "client_state \<Rightarrow> json" where
  "overallLabel st =
     nullish_or (opt_chain (analysis st) (js ''overallLabel'')) (JStr (js ''Not analyzed yet''))"

definition placeholder :: "Criterion \<Rightarrow> json" where
  "placeholder c =
     JObj [(js ''id'', JStr (criterion_id c)),
           (js ''label'', JStr (criterion_label c)),
           (js ''score'', JNum (js ''0'')),
           (js ''level'', JStr (js ''missing'')),
           (js ''feedback'', JStr (criterion_description c))]"

definition criteriaScores :: "client_state \<Rightarrow> json" where
  "criteriaScores st =
     nullish_or (opt_chain (analysis st) (js ''criteria'')) (JArr (map placeholder criteria))"

subsection \<open>The network\<close>

text \<open>
  What a \<open>catch\<close> clause can tell of a thrown value: an \<open>Error\<close> with its message, or
  anything else. A \<open>fetch\<close> either rejects, or resolves to a response with a status and
  a body that \<open>response.json()\<close> reads or fails to read.
\<close>

datatype thrown = ErrorObject jsstring | NotAnError

record fetch_call =
  fetch_url :: jsstring
  fetch_method :: jsstring
  fetch_headers :: "(jsstring \<times> jsstring) list"
  fetch_body :: json

datatype fetch_reply = FetchRejected thrown | FetchResponse nat "thrown + json"

definition response_ok :: "nat \<Rightarrow> bool" where
  "response_ok code \<longleftrightarrow> 200 \<le> code \<and> code \<le> 299"

subsection \<open>The actions\<close>

text \<open>
  The message of \<open>new Error(data?.error ?? "Failed to analyze prompt.")\<close>. The conversion
  of a value that is not a string to a string is the platform's; it is the parameter
  \<open>ToString\<close>.
\<close>

definition error_message :: "(json \<Rightarrow> jsstring) \<Rightarrow> json \<Rightarrow> jsstring" where
  "error_message ToString data =
     (case nullish_or (opt_chain data (js ''error'')) (JStr (js ''Failed to analyze prompt.'')) of
        JStr m \<Rightarrow> m
      | v \<Rightarrow> ToString v)"

text \<open>The \<open>try\<close> block up to the point where the data is stored: the data, or what was thrown.\<close>

definition attempt :: "(json \<Rightarrow> jsstring) \<Rightarrow> fetch_reply \<Rightarrow> thrown + json" where
  "attempt ToString reply =
     (case reply of
        FetchRejected e \<Rightarrow> Inl e
      | FetchResponse code r \<Rightarrow>
          (case r of
             Inl e \<Rightarrow> Inl e
           | Inr data \<Rightarrow>
               if \<not> response_ok code then Inl (ErrorObject (error_message ToString data))
               else Inr data))"

definition caught_message :: "thrown \<Rightarrow> jsstring" where
  "caught_message e =
     (case e of ErrorObject m \<Rightarrow> m | NotAnError \<Rightarrow> js ''Unknown error while analyzing.'')"

text \<open>\<open>handleAnalyze\<close> returns the new state and the requests it issued.\<close>

definition analyze_call :: "jsstring \<Rightarrow> fetch_call" where
  "analyze_call p =
     \<lparr>fetch_url = js ''/api/analyze'', fetch_method = js ''POST'',
      fetch_headers = [(js ''Content-Type'', js ''application/json'')],
      fetch_body = JObj [(js ''prompt'', JStr p)]\<rparr>"

definition handleAnalyze ::
  "(json \<Rightarrow> jsstring) \<Rightarrow> (fetch_call \<Rightarrow> fetch_reply) \<Rightarrow> client_state \<Rightarrow>
   client_state \<times> fetch_call list" where
  "handleAnalyze ToString fetch st =
     (if trim (prompt st) = [] then
        (st\<lparr>error := Some (js ''Write a prompt first.'')\<rparr>, [])
      else
        (let st1 = st\<lparr>isAnalyzing := True, error := None\<rparr>;
             call = analyze_call (prompt st);
             st2 = (case attempt ToString (fetch call) of
                      Inr data \<Rightarrow> st1\<lparr>analysis := data, copied := False\<rparr>
                    | Inl e \<Rightarrow> st1\<lparr>error := Some (caught_message e)\<rparr>)
         in (st2\<lparr>isAnalyzing := False\<rparr>, [call])))"

text \<open>
  \<open>handleUseImproved\<close>: calling \<open>trim\<close> on a truthy value that is not a string throws a
  TypeError.
\<close>

definition handleUseImproved :: "client_state \<Rightarrow> exception + client_state" where
  "handleUseImproved st =
     (if \<not> truthy (analysis st) then Inr st
      else
        (case get_prop (analysis st) (js ''improvedPrompt'') of
           None \<Rightarrow> Inr st
         | Some v \<Rightarrow>
             if \<not> truthy v then Inr st
             else
               (case v of
                  JStr s \<Rightarrow> if trim s \<noteq> [] then Inr (st\<lparr>prompt := s\<rparr>) else Inr st
                | _ \<Rightarrow> Inl TypeError)))"

section \<open>Sample environments\<close>

text \<open>
  Concrete surroundings for evaluating the handlers: an engine whose \<open>JSON.stringify\<close>
  fails on the values nested more deeply than a given bound, an external model that gives
  the same reply to every call, one that fails, a server that gives the same reply to every
  request, a conversion to strings that takes each number's literal for its text (which is
  what the platform prints for a literal in canonical form), and a client state after a
  successful analysis.
\<close>

fun nesting :: "json \<Rightarrow> nat" where
  "nesting (JArr vs) = Suc (fold max (map nesting vs) 0)"
| "nesting (JObj ms) = Suc (fold max (map (\<lambda>(k, v). nesting v) ms) 0)"
| "nesting v = 0"

definition deeper_than :: "nat \<Rightarrow> json \<Rightarrow> bool" where
  "deeper_than d v \<longleftrightarrow> d < nesting v"

definition reply_with :: "jsstring \<Rightarrow> model_call \<Rightarrow> upstream_reply" where
  "reply_with t c = UpstreamText t"

definition upstream_down :: "model_call \<Rightarrow> upstream_reply" where
  "upstream_down c = UpstreamError"

definition server_replies :: "fetch_reply \<Rightarrow> fetch_call \<Rightarrow> fetch_reply" where
  "server_replies r c = r"

fun join_comma :: "jsstring list \<Rightarrow> jsstring" where
  "join_comma [] = []"
| "join_comma [x] = x"
| "join_comma (x # y # ys) = x @ [0x2C] @ join_comma (y # ys)"

fun literal_ToString :: "json \<Rightarrow> jsstring" where
  "literal_ToString JNull = js ''null''"
| "literal_ToString (JBool b) = (if b then js ''true'' else js ''false'')"
| "literal_ToString (JNum n) = n"
| "literal_ToString (JStr s) = s"
| "literal_ToString (JArr vs) = join_comma (map (\<lambda>v. if v = JNull then [] else literal_ToString v) vs)"
| "literal_ToString (JObj ms) = js ''[object Object]''"

definition analysed_state :: client_state where
  "analysed_state =
     \<lparr>prompt = js ''Write something.'',
      analysis = JObj [(js ''overallScore'', JNum (js ''42''))],
      isAnalyzing = False, error = None, copied = True\<rparr>"

section \<open>Notions for reasoning about the parser\<close>

text \<open>
  A number literal goes on with a digit, a point or an exponent mark; any other next
  character (or the end of the text) stops it.
\<close>

definition number_goes_on :: "code_unit \<Rightarrow> bool" where
  "number_goes_on c \<longleftrightarrow> isDigit c \<or> c = 0x2E \<or> c = 0x65 \<or> c = 0x45"

definition stops :: "jsstring \<Rightarrow> bool" where
  "stops w \<longleftrightarrow> w = [] \<or> \<not> number_goes_on (hd w)"

text \<open>The first and the last character of the text of a value.\<close>

definition value_start :: "code_unit \<Rightarrow> bool" where
  "value_start c \<longleftrightarrow>
     c = 0x7B \<or> c = 0x5B \<or> c = 0x22 \<or> c = 0x74 \<or> c = 0x66 \<or> c = 0x6E \<or> c = 0x2D \<or> isDigit c"

definition value_end :: "code_unit \<Rightarrow> bool" where
  "value_end c \<longleftrightarrow> c = 0x7D \<or> c = 0x5D \<or> c = 0x22 \<or> c = 0x65 \<or> c = 0x6C \<or> isDigit c"

text \<open>
  \<open>value_reading c v\<close>: the text \<open>c\<close> is read as the value \<open>v\<close>, wholly, whatever follows
  it that stops a number, and with any bound on the depth that is at least the length of
  \<open>c\<close>. Likewise for the elements of an array up to its closing bracket, and the members of
  an object up to its closing brace.
\<close>

definition value_reading :: "jsstring \<Rightarrow> json \<Rightarrow> bool" where
  "value_reading c v \<longleftrightarrow>
     c \<noteq> [] \<and> value_start (hd c) \<and> value_end (last c) \<and>
     (\<forall>m x. length c \<le> m \<and> stops x \<longrightarrow> parse_value m (c @ x) = Some (v, x))"

definition elements_reading :: "jsstring \<Rightarrow> json list \<Rightarrow> bool" where
  "elements_reading c vs \<longleftrightarrow>
     c \<noteq> [] \<and> value_start (hd c) \<and> last c = 0x5D \<and>
     (\<forall>m x. length c \<le> m \<longrightarrow> parse_elements m (c @ x) = Some (vs, x))"

definition members_reading :: "jsstring \<Rightarrow> (jsstring \<times> json) list \<Rightarrow> bool" where
  "members_reading c ms \<longleftrightarrow>
     c \<noteq> [] \<and> hd c = 0x22 \<and> last c = 0x7D \<and>
     (\<forall>m x. length c \<le> m \<longrightarrow> parse_members m (c @ x) = Some (ms, x))"

text \<open>A value in which every number is finite and none is negative zero.\<close>

fun plain_numbers :: "json \<Rightarrow> bool" where
  "plain_numbers JNull = True"
| "plain_numbers (JBool b) = True"
| "plain_numbers (JNum n) = (\<not> rounds_to_infinity n \<and> \<not> (rounds_to_zero n \<and> negative n))"
| "plain_numbers (JStr s) = True"
| "plain_numbers (JArr vs) = list_all plain_numbers vs"
| "plain_numbers (JObj ms) = list_all (\<lambda>(k, v). plain_numbers v) ms"

section \<open>Evaluation\<close>

lemmas parser_defs = JSON_parse_def skip_ws_def isJSONWhiteSpace_def js_def literal_def scan_number_def
  scan_minus_def scan_int_def scan_frac_def scan_exp_def scan_sign_def isDigit_def object_of_def
  own_keys_order_def array_index_def digits_value_def digit_value_def
  hex4_def hexval_def unescape_def

lemmas number_defs = digit_value_def digits_value_def mantissa_text_def exponent_text_def
  fraction_digits_def significand_def exponent_def negative_def rounds_to_infinity_def
  rounds_to_zero_def isDigit_def js_def

lemmas cleaning_defs = cleaned_def trim_def isWhiteSpace_def strip_open_fence_def
  strip_close_fence_def fence_def json_tag_def

section \<open>Trimming\<close>

lemma trim_Nil: "trim [] = []"
  by (simp add: trim_def)

lemma trim_blank: "list_all isWhiteSpace p \<Longrightarrow> trim p = []"
  by (auto simp: trim_def list_all_iff dest: set_dropWhileD)

lemma trim_nonblank: "trim p \<noteq> [] \<Longrightarrow> p \<noteq> []"
  by (auto simp: trim_def)

lemma trim_eq_Nil: "trim x = [] \<longleftrightarrow> list_all isWhiteSpace x"
proof
  assume "trim x = []"
  then have all: "\<forall>c\<in>set (dropWhile isWhiteSpace x). isWhiteSpace c"
    by (simp add: trim_def dropWhile_eq_Nil_conv)
  have "dropWhile isWhiteSpace x = []"
  proof (rule ccontr)
    assume ne: "dropWhile isWhiteSpace x \<noteq> []"
    then have "\<not> isWhiteSpace (hd (dropWhile isWhiteSpace x))"
      by (rule hd_dropWhile)
    moreover have "hd (dropWhile isWhiteSpace x) \<in> set (dropWhile isWhiteSpace x)"
      using ne by simp
    ultimately show False using all by blast
  qed
  then show "list_all isWhiteSpace x"
    by (simp add: list_all_iff dropWhile_eq_Nil_conv)
next
  assume "list_all isWhiteSpace x"
  then show "trim x = []" by (rule trim_blank)
qed

section \<open>The scanners read again what they read\<close>

lemma takeWhile_stable:
  assumes "x = [] \<or> \<not> P (hd x)"
  shows "takeWhile P (takeWhile P t @ x) = takeWhile P t"
    and "dropWhile P (takeWhile P t @ x) = x"
proof -
  have all: "\<And>y. y \<in> set (takeWhile P t) \<Longrightarrow> P y"
    by (auto dest: set_takeWhileD)
  have x: "takeWhile P x = []" "dropWhile P x = x"
    using assms by (cases x; auto)+
  show "takeWhile P (takeWhile P t @ x) = takeWhile P t"
    using takeWhile_append2 [of "takeWhile P t" P x] all x by simp
  show "dropWhile P (takeWhile P t @ x) = x"
    using dropWhile_append2 [of "takeWhile P t" P x] all x by simp
qed

lemma last_takeWhile: "takeWhile P t \<noteq> [] \<Longrightarrow> P (last (takeWhile P t))"
proof -
  assume "takeWhile P t \<noteq> []"
  then have "last (takeWhile P t) \<in> set (takeWhile P t)"
    by (rule last_in_set)
  then show ?thesis
    by (blast dest: set_takeWhileD)
qed

lemma digit_facts:
  "isDigit c \<Longrightarrow> c \<noteq> 0x2E \<and> c \<noteq> 0x65 \<and> c \<noteq> 0x45 \<and> c \<noteq> 0x2D \<and> c \<noteq> 0x2B"
  "\<not> isDigit 0x2E" "\<not> isDigit 0x65" "\<not> isDigit 0x45" "\<not> isDigit 0x2D"
  by (auto simp: isDigit_def)

lemma scan_int_reads:
  assumes "scan_int s = Some (i, r)"
  shows "s = i @ r" and "i \<noteq> []" and "isDigit (hd i)" and "isDigit (last i)"
    and "\<And>x. x = [] \<or> \<not> isDigit (hd x) \<Longrightarrow> scan_int (i @ x) = Some (i, x)"
proof -
  from assms obtain c t where s: "s = c # t"
    by (cases s) (simp_all add: scan_int_def)
  have d: "isDigit c"
    using assms s by (auto simp: scan_int_def isDigit_def split: if_splits)
  show "s = i @ r" and "i \<noteq> []" and "isDigit (hd i)"
    using assms s d by (auto simp: scan_int_def split: if_splits)
  show "isDigit (last i)"
  proof (cases "c = 0x30")
    case True
    with assms s d show ?thesis by (auto simp: scan_int_def)
  next
    case False
    with assms s d have i: "i = c # takeWhile isDigit t"
      by (simp add: scan_int_def)
    show ?thesis
      unfolding i using d last_takeWhile [of isDigit t] by simp
  qed
  show "scan_int (i @ x) = Some (i, x)" if "x = [] \<or> \<not> isDigit (hd x)" for x
  proof (cases "c = 0x30")
    case True
    with assms s show ?thesis by (auto simp: scan_int_def)
  next
    case False
    with assms s d have i: "i = c # takeWhile isDigit t"
      by (simp add: scan_int_def)
    show ?thesis
      unfolding i using that takeWhile_stable [of x isDigit t] False d
      by (simp add: scan_int_def)
  qed
qed

lemma scan_frac_reads:
  assumes "scan_frac s = Some (f, r)"
  shows "s = f @ r" and "f = [] \<or> hd f = 0x2E \<and> isDigit (last f)"
    and "\<And>x. x = [] \<or> \<not> isDigit (hd x) \<and> hd x \<noteq> 0x2E \<Longrightarrow> scan_frac (f @ x) = Some (f, x)"
proof -
  consider (none) "f = []" "r = s" "s = [] \<or> hd s \<noteq> 0x2E"
    | (some) t where "s = 0x2E # t" "takeWhile isDigit t \<noteq> []" "f = 0x2E # takeWhile isDigit t"
        "r = dropWhile isDigit t"
    using assms by (cases s) (auto simp: scan_frac_def split: if_splits)
  then have "s = f @ r \<and> (f = [] \<or> hd f = 0x2E \<and> isDigit (last f)) \<and>
     (\<forall>x. x = [] \<or> \<not> isDigit (hd x) \<and> hd x \<noteq> 0x2E \<longrightarrow> scan_frac (f @ x) = Some (f, x))"
  proof cases
    case none
    have "scan_frac x = Some ([], x)" if "x = [] \<or> \<not> isDigit (hd x) \<and> hd x \<noteq> 0x2E" for x
      using that by (cases x) (auto simp: scan_frac_def)
    then show ?thesis using none by simp
  next
    case some
    have "scan_frac (f @ x) = Some (f, x)" if "x = [] \<or> \<not> isDigit (hd x) \<and> hd x \<noteq> 0x2E" for x
    proof -
      from that have "x = [] \<or> \<not> isDigit (hd x)" by blast
      then show ?thesis
        using takeWhile_stable [of x isDigit t] some(2) by (simp add: scan_frac_def some(3))
    qed
    then show ?thesis
      using some last_takeWhile [of isDigit t] by simp
  qed
  then show "s = f @ r" and "f = [] \<or> hd f = 0x2E \<and> isDigit (last f)"
    and "\<And>x. x = [] \<or> \<not> isDigit (hd x) \<and> hd x \<noteq> 0x2E \<Longrightarrow> scan_frac (f @ x) = Some (f, x)"
    by blast+
qed

lemma scan_sign_reads:
  assumes "scan_sign s = (sg, r)"
  shows "s = sg @ r" and "\<And>y. y \<noteq> [] \<Longrightarrow> isDigit (hd y) \<Longrightarrow> scan_sign (sg @ y) = (sg, y)"
proof -
  show "s = sg @ r"
    using assms by (cases s) (auto simp: scan_sign_def split: if_splits)
  show "scan_sign (sg @ y) = (sg, y)" if "y \<noteq> []" "isDigit (hd y)" for y
  proof -
    from that obtain a y' where y: "y = a # y'" "isDigit a"
      by (cases y) auto
    then have "a \<noteq> 0x2B" "a \<noteq> 0x2D"
      using digit_facts(1) by blast+
    then show ?thesis
      using assms y by (cases s) (auto simp: scan_sign_def split: if_splits)
  qed
qed

lemma scan_exp_reads:
  assumes "scan_exp s = Some (e, r)"
  shows "s = e @ r" and "e = [] \<or> (hd e = 0x65 \<or> hd e = 0x45) \<and> isDigit (last e)"
    and "\<And>x. stops x \<Longrightarrow> scan_exp (e @ x) = Some (e, x)"
proof -
  consider (none) "e = []" "r = s" "s = [] \<or> hd s \<noteq> 0x65 \<and> hd s \<noteq> 0x45"
    | (some) c t sg t1 where "s = c # t" "c = 0x65 \<or> c = 0x45" "scan_sign t = (sg, t1)"
        "takeWhile isDigit t1 \<noteq> []" "e = c # sg @ takeWhile isDigit t1" "r = dropWhile isDigit t1"
  proof (cases s)
    case Nil
    with assms that(1) show ?thesis by (simp add: scan_exp_def)
  next
    case (Cons c t)
    show ?thesis
    proof (cases "c = 0x65 \<or> c = 0x45")
      case False
      with Cons assms that(1) show ?thesis by (auto simp: scan_exp_def)
    next
      case True
      obtain sg t1 where sg: "scan_sign t = (sg, t1)"
        by (cases "scan_sign t")
      with True Cons assms that(2) [OF Cons True sg] show ?thesis
        by (auto simp: scan_exp_def split: if_splits)
    qed
  qed
  then have "s = e @ r \<and> (e = [] \<or> (hd e = 0x65 \<or> hd e = 0x45) \<and> isDigit (last e)) \<and>
     (\<forall>x. stops x \<longrightarrow> scan_exp (e @ x) = Some (e, x))"
  proof cases
    case none
    have "scan_exp x = Some ([], x)" if "stops x" for x
      using that by (cases x) (auto simp: scan_exp_def stops_def number_goes_on_def)
    then show ?thesis using none by simp
  next
    case some
    have t: "t = sg @ t1"
      using some(3) by (rule scan_sign_reads(1))
    have "scan_exp (e @ x) = Some (e, x)" if "stops x" for x
    proof -
      from that have x: "x = [] \<or> \<not> isDigit (hd x)"
        by (auto simp: stops_def number_goes_on_def)
      have "isDigit (hd (takeWhile isDigit t1))"
        using some(4) by (cases t1) (auto split: if_splits)
      then have "scan_sign (sg @ takeWhile isDigit t1 @ x) = (sg, takeWhile isDigit t1 @ x)"
        using scan_sign_reads(2) [OF some(3), of "takeWhile isDigit t1 @ x"] some(4) by simp
      then show ?thesis
        using some(2,4) x takeWhile_stable [of x isDigit t1]
        by (simp add: scan_exp_def some(5))
    qed
    then show ?thesis
      using some t last_takeWhile [of isDigit t1] by auto
  qed
  then show "s = e @ r" and "e = [] \<or> (hd e = 0x65 \<or> hd e = 0x45) \<and> isDigit (last e)"
    and "\<And>x. stops x \<Longrightarrow> scan_exp (e @ x) = Some (e, x)"
    by blast+
qed

lemma scan_minus_reads:
  assumes "scan_minus s = (sg, r)"
  shows "s = sg @ r" and "sg = [] \<or> sg = [0x2D]"
    and "\<And>y. y \<noteq> [] \<Longrightarrow> isDigit (hd y) \<Longrightarrow> scan_minus (sg @ y) = (sg, y)"
proof -
  show "s = sg @ r" and "sg = [] \<or> sg = [0x2D]"
    using assms by (cases s; auto simp: scan_minus_def split: if_splits)+
  show "scan_minus (sg @ y) = (sg, y)" if "y \<noteq> []" "isDigit (hd y)" for y
  proof -
    from that obtain a y' where y: "y = a # y'" "isDigit a"
      by (cases y) auto
    then have "a \<noteq> 0x2D"
      using digit_facts(1) by blast
    then show ?thesis
      using assms y by (cases s) (auto simp: scan_minus_def split: if_splits)
  qed
qed

lemma scan_number_reads:
  assumes "scan_number s = Some (num, r)"
  shows "s = num @ r" and "num \<noteq> []" and "hd num = 0x2D \<or> isDigit (hd num)"
    and "isDigit (last num)"
    and "\<And>x. stops x \<Longrightarrow> scan_number (num @ x) = Some (num, x)"
proof -
  obtain sg s1 where m: "scan_minus s = (sg, s1)"
    by (cases "scan_minus s")
  obtain i s2 where i: "scan_int s1 = Some (i, s2)"
    using assms m by (cases "scan_int s1") (auto simp: scan_number_def)
  obtain f s3 where f: "scan_frac s2 = Some (f, s3)"
    using assms m i by (cases "scan_frac s2") (auto simp: scan_number_def)
  obtain e s4 where e: "scan_exp s3 = Some (e, s4)"
    using assms m i f by (cases "scan_exp s3") (auto simp: scan_number_def)
  have num: "num = sg @ i @ f @ e" and r: "r = s4"
    using assms m i f e by (simp_all add: scan_number_def)
  note M = scan_minus_reads [OF m] and I = scan_int_reads [OF i]
    and F = scan_frac_reads [OF f] and E = scan_exp_reads [OF e]
  show "s = num @ r"
    by (simp add: num r M(1) I(1) F(1) E(1))
  show "num \<noteq> []"
    using I(2) by (simp add: num)
  obtain a i' where a: "i = a # i'" "isDigit a"
    using I(2,3) by (cases i) auto
  show "hd num = 0x2D \<or> isDigit (hd num)"
    using M(2) a by (auto simp: num)
  show "isDigit (last num)"
  proof (cases "e = []")
    case False
    then show ?thesis using E(2) by (simp add: num)
  next
    case True
    note e_empty = this
    show ?thesis
    proof (cases "f = []")
      case False
      then show ?thesis using F(2) e_empty by (simp add: num)
    next
      case True
      then show ?thesis using I(2,4) e_empty by (simp add: num)
    qed
  qed
  show "scan_number (num @ x) = Some (num, x)" if x: "stops x" for x
  proof -
    have x': "x = [] \<or> \<not> isDigit (hd x) \<and> hd x \<noteq> 0x2E"
      using x by (auto simp: stops_def number_goes_on_def)
    have e1: "scan_exp (e @ x) = Some (e, x)"
      using x by (rule E(3))
    have fx: "e @ x = [] \<or> \<not> isDigit (hd (e @ x)) \<and> hd (e @ x) \<noteq> 0x2E"
    proof (cases "e = []")
      case True
      then show ?thesis using x' by simp
    next
      case False
      then have "hd (e @ x) = 0x65 \<or> hd (e @ x) = 0x45"
        using E(2) by simp
      then show ?thesis
        using digit_facts(3,4) by auto
    qed
    then have f1: "scan_frac (f @ e @ x) = Some (f, e @ x)"
      by (rule F(3))
    have "f @ e @ x = [] \<or> \<not> isDigit (hd (f @ e @ x))"
    proof (cases "f = []")
      case True
      then show ?thesis using fx by auto
    next
      case False
      then have "hd (f @ e @ x) = 0x2E"
        using F(2) by simp
      then show ?thesis
        using digit_facts(2) by simp
    qed
    then have i1: "scan_int (i @ f @ e @ x) = Some (i, f @ e @ x)"
      by (rule I(5))
    have "scan_minus (sg @ (i @ f @ e @ x)) = (sg, i @ f @ e @ x)"
      using a by (intro M(3)) simp_all
    then show ?thesis
      using i1 f1 e1 by (simp add: scan_number_def num)
  qed
qed

lemma literal_reads:
  assumes "literal w v s = Some (v', r)"
  shows "s = w @ r" and "v' = v" and "\<And>x. literal w v (w @ x) = Some (v, x)"
proof -
  from assms have t: "take (length w) s = w" and r: "r = drop (length w) s" and v: "v' = v"
    by (auto simp: literal_def split: if_splits)
  have "s = take (length w) s @ drop (length w) s"
    by simp
  then show "s = w @ r"
    using t r by simp
  show "v' = v" by (rule v)
  show "literal w v (w @ x) = Some (v, x)" for x
    by (simp add: literal_def)
qed

lemma parse_chars_step:
  assumes "parse_chars (c # t) = Some (str, r)"
  obtains (quote) "c = 0x22" "str = []" "r = t"
    | (unicode) h1 h2 h3 h4 t2 u str' where "c = 0x5C" "t = 0x75 # h1 # h2 # h3 # h4 # t2"
        "hex4 h1 h2 h3 h4 = Some u" "parse_chars t2 = Some (str', r)" "str = u # str'"
    | (escape) e t1 u str' where "c = 0x5C" "t = e # t1" "e \<noteq> 0x75"
        "unescape e = Some u" "parse_chars t1 = Some (str', r)" "str = u # str'"
    | (plain) str' where "c \<noteq> 0x22" "c \<noteq> 0x5C" "\<not> c < 0x20"
        "parse_chars t = Some (str', r)" "str = c # str'"
proof (cases "c = 0x22")
  case True
  with assms quote show ?thesis by simp
next
  case False
  note nq = this
  show ?thesis
  proof (cases "c = 0x5C")
    case False
    with assms nq plain show ?thesis
      by (cases "parse_chars t") (auto split: if_splits)
  next
    case True
    note bs = this
    with assms nq obtain e t1 where t: "t = e # t1"
      by (cases t) auto
    show ?thesis
    proof (cases "e = 0x75")
      case False
      with assms nq bs t escape show ?thesis
        by (cases "unescape e"; cases "parse_chars t1") auto
    next
      case True
      with assms nq bs t obtain h1 h2 h3 h4 t2 where t1: "t1 = h1 # h2 # h3 # h4 # t2"
        by (cases t1 rule: list.exhaust [case_product list.exhaust, case_product list.exhaust, case_product list.exhaust])
           (auto split: list.splits)
      with assms nq bs t True unicode show ?thesis
        by (cases "hex4 h1 h2 h3 h4"; cases "parse_chars t2") auto
    qed
  qed
qed

lemma parse_chars_reads:
  "parse_chars t = Some (str, r) \<Longrightarrow>
     \<exists>c. t = c @ r \<and> c \<noteq> [] \<and> last c = 0x22 \<and> (\<forall>x. parse_chars (c @ x) = Some (str, x))"
proof (induction t arbitrary: str rule: length_induct)
  case (1 t)
  then obtain c t' where t: "t = c # t'"
    by (cases t) auto
  from "1.prems" [unfolded t] show ?case
  proof (cases rule: parse_chars_step)
    case quote
    then have "t = [c] @ r \<and> [c] \<noteq> [] \<and> last [c] = 0x22 \<and>
        (\<forall>x. parse_chars ([c] @ x) = Some (str, x))"
      using t by simp
    then show ?thesis by blast
  next
    case (unicode h1 h2 h3 h4 t2 u str')
    have "length t2 < length t"
      using t unicode(2) by simp
    with "1.IH" unicode(4) obtain c' where c': "t2 = c' @ r" "c' \<noteq> []" "last c' = 0x22"
        "\<forall>x. parse_chars (c' @ x) = Some (str', x)"
      by blast
    let ?c = "c # 0x75 # h1 # h2 # h3 # h4 # c'"
    have "t = ?c @ r \<and> ?c \<noteq> [] \<and> last ?c = 0x22 \<and>
        (\<forall>x. parse_chars (?c @ x) = Some (str, x))"
      using c' t unicode by simp
    then show ?thesis by blast
  next
    case (escape e t1 u str')
    have "length t1 < length t"
      using t escape(2) by simp
    with "1.IH" escape(5) obtain c' where c': "t1 = c' @ r" "c' \<noteq> []" "last c' = 0x22"
        "\<forall>x. parse_chars (c' @ x) = Some (str', x)"
      by blast
    let ?c = "c # e # c'"
    have "t = ?c @ r \<and> ?c \<noteq> [] \<and> last ?c = 0x22 \<and>
        (\<forall>x. parse_chars (?c @ x) = Some (str, x))"
      using c' t escape by simp
    then show ?thesis by blast
  next
    case (plain str')
    have "length t' < length t"
      using t by simp
    with "1.IH" plain(4) obtain c' where c': "t' = c' @ r" "c' \<noteq> []" "last c' = 0x22"
        "\<forall>x. parse_chars (c' @ x) = Some (str', x)"
      by blast
    let ?c = "c # c'"
    have "t = ?c @ r \<and> ?c \<noteq> [] \<and> last ?c = 0x22 \<and>
        (\<forall>x. parse_chars (?c @ x) = Some (str, x))"
      using c' t plain by simp
    then show ?thesis by blast
  qed
qed

section \<open>Characters and white space\<close>

lemma value_start_facts:
  assumes "value_start c"
  shows "\<not> isJSONWhiteSpace c" and "\<not> isWhiteSpace c" and "c \<noteq> 0x60" and "c \<noteq> 0x5D" and "c \<noteq> 0x7D"
  using assms
  by (auto simp: value_start_def isJSONWhiteSpace_def isWhiteSpace_def isDigit_def word_le_nat_alt)

lemma value_end_facts:
  assumes "value_end c"
  shows "\<not> isWhiteSpace c" and "c \<noteq> 0x60"
  using assms
  by (auto simp: value_end_def isWhiteSpace_def isDigit_def word_le_nat_alt)

lemma JSON_ws_facts:
  assumes "isJSONWhiteSpace c"
  shows "isWhiteSpace c" and "\<not> number_goes_on c"
  using assms
  by (auto simp: isJSONWhiteSpace_def isWhiteSpace_def number_goes_on_def isDigit_def)

lemma separator_facts:
  "\<not> number_goes_on 0x2C" "\<not> number_goes_on 0x5D" "\<not> number_goes_on 0x7D" "\<not> number_goes_on 0x3A"
  "\<not> isJSONWhiteSpace 0x2C" "\<not> isJSONWhiteSpace 0x5D" "\<not> isJSONWhiteSpace 0x7D"
  "\<not> isJSONWhiteSpace 0x3A" "\<not> isJSONWhiteSpace 0x22"
  by (simp_all add: number_goes_on_def isJSONWhiteSpace_def isDigit_def)

lemma skip_ws_reads:
  assumes "skip_ws t = c @ r" and "c \<noteq> []"
  shows "\<exists>ws. t = ws @ c @ r \<and> list_all isJSONWhiteSpace ws \<and> \<not> isJSONWhiteSpace (hd c)"
proof -
  let ?ws = "takeWhile isJSONWhiteSpace t"
  have "t = ?ws @ skip_ws t"
    by (simp add: skip_ws_def)
  moreover have "list_all isJSONWhiteSpace ?ws"
    by (auto simp: list_all_iff dest: set_takeWhileD)
  moreover have "\<not> isJSONWhiteSpace (hd (skip_ws t))"
    unfolding skip_ws_def using assms by (intro hd_dropWhile) (simp add: skip_ws_def)
  ultimately show ?thesis
    using assms by auto
qed

lemma skip_ws_one:
  assumes "skip_ws t = d # u" 
  shows "\<exists>ws. t = ws @ d # u \<and> list_all isJSONWhiteSpace ws"
  using skip_ws_reads [of t "[d]" u] assms by auto

lemma skip_ws_over:
  assumes "list_all isJSONWhiteSpace ws" and "c \<noteq> []" and "\<not> isJSONWhiteSpace (hd c)"
  shows "skip_ws (ws @ c @ y) = c @ y"
proof -
  have "dropWhile isJSONWhiteSpace (ws @ c @ y) = dropWhile isJSONWhiteSpace (c @ y)"
    using assms(1) by (intro dropWhile_append2) (simp add: list_all_iff)
  also have "\<dots> = c @ y"
    using assms(2,3) by (cases c) auto
  finally show ?thesis
    by (simp add: skip_ws_def)
qed

lemma stops_after_ws:
  assumes "list_all isJSONWhiteSpace ws" and "\<not> number_goes_on c"
  shows "stops (ws @ c # y)"
  using assms JSON_ws_facts(2) by (cases ws) (auto simp: stops_def)

lemma stops_ws:
  assumes "list_all isJSONWhiteSpace ws"
  shows "stops ws"
  using assms JSON_ws_facts(2) by (cases ws) (auto simp: stops_def)

lemma skip_ws_Nil_iff: "skip_ws r = [] \<longleftrightarrow> list_all isJSONWhiteSpace r"
  by (simp add: skip_ws_def list_all_iff dropWhile_eq_Nil_conv)

lemma list_all_JSON_ws:
  "list_all isJSONWhiteSpace ws \<Longrightarrow> list_all isWhiteSpace ws"
  using JSON_ws_facts(1) by (auto simp: list_all_iff)

section \<open>Texts that are read as values\<close>

lemma reading_number:
  assumes "num \<noteq> []" and "hd num = 0x2D \<or> isDigit (hd num)" and "isDigit (last num)"
    and again: "\<And>x. stops x \<Longrightarrow> scan_number (num @ x) = Some (num, x)"
  shows "value_reading num (JNum num)"
proof -
  obtain a t where num: "num = a # t"
    using assms(1) by (cases num) auto
  have a: "a = 0x2D \<or> isDigit a"
    using assms(2) num by simp
  then have branch: "a \<noteq> 0x7B" "a \<noteq> 0x5B" "a \<noteq> 0x22" "a \<noteq> 0x74" "a \<noteq> 0x66" "a \<noteq> 0x6E"
    by (auto simp: isDigit_def)
  have "parse_value m (num @ x) = Some (JNum num, x)" if "length num \<le> m" "stops x" for m x
  proof -
    from that(1) num obtain m' where m: "m = Suc m'"
      by (cases m) auto
    have "parse_value (Suc m') (a # (t @ x)) = Some (JNum num, x)"
      using again [OF that(2)] branch by (simp add: num)
    then show ?thesis by (simp add: m num)
  qed
  then show ?thesis
    using assms(1,3) a num by (auto simp: value_reading_def value_start_def value_end_def)
qed

lemma reading_string:
  assumes "c \<noteq> []" and "last c = 0x22" and again: "\<forall>x. parse_chars (c @ x) = Some (str, x)"
  shows "value_reading (0x22 # c) (JStr str)"
proof -
  have "parse_value m ((0x22 # c) @ x) = Some (JStr str, x)" if "length (0x22 # c) \<le> m" for m x
  proof -
    from that obtain m' where m: "m = Suc m'"
      by (cases m) auto
    show ?thesis
      using again by (simp add: m)
  qed
  then show ?thesis
    using assms(1,2) by (simp add: value_reading_def value_start_def value_end_def)
qed

lemma reading_literal:
  "value_reading (js ''true'') (JBool True)"
  "value_reading (js ''false'') (JBool False)"
  "value_reading (js ''null'') JNull"
proof -
  have "parse_value m (js ''true'' @ x) = Some (JBool True, x)" if "length (js ''true'') \<le> m" for m x
  proof -
    from that obtain m' where m: "m = Suc m'"
      by (cases m) (auto simp: js_def)
    show ?thesis
      by (simp add: m js_def literal_def)
  qed
  then show "value_reading (js ''true'') (JBool True)"
    by (simp add: value_reading_def value_start_def value_end_def js_def)
  have "parse_value m (js ''false'' @ x) = Some (JBool False, x)" if "length (js ''false'') \<le> m" for m x
  proof -
    from that obtain m' where m: "m = Suc m'"
      by (cases m) (auto simp: js_def)
    show ?thesis
      by (simp add: m js_def literal_def)
  qed
  then show "value_reading (js ''false'') (JBool False)"
    by (simp add: value_reading_def value_start_def value_end_def js_def)
  have "parse_value m (js ''null'' @ x) = Some (JNull, x)" if "length (js ''null'') \<le> m" for m x
  proof -
    from that obtain m' where m: "m = Suc m'"
      by (cases m) (auto simp: js_def)
    show ?thesis
      by (simp add: m js_def literal_def)
  qed
  then show "value_reading (js ''null'') JNull"
    by (simp add: value_reading_def value_start_def value_end_def js_def)
qed

lemma reading_empty_object:
  assumes "list_all isJSONWhiteSpace ws"
  shows "value_reading (0x7B # ws @ [0x7D]) (JObj [])"
proof -
  have "parse_value m ((0x7B # ws @ [0x7D]) @ x) = Some (JObj [], x)"
    if "length (0x7B # ws @ [0x7D]) \<le> m" for m x
  proof -
    from that obtain m' where m: "m = Suc m'"
      by (cases m) auto
    have "skip_ws (ws @ [0x7D] @ x) = [0x7D] @ x"
      using assms separator_facts by (intro skip_ws_over) simp_all
    then show ?thesis
      by (simp add: m)
  qed
  then show ?thesis
    by (simp add: value_reading_def value_start_def value_end_def)
qed

lemma reading_empty_array:
  assumes "list_all isJSONWhiteSpace ws"
  shows "value_reading (0x5B # ws @ [0x5D]) (JArr [])"
proof -
  have "parse_value m ((0x5B # ws @ [0x5D]) @ x) = Some (JArr [], x)"
    if "length (0x5B # ws @ [0x5D]) \<le> m" for m x
  proof -
    from that obtain m' where m: "m = Suc m'"
      by (cases m) auto
    have "skip_ws (ws @ [0x5D] @ x) = [0x5D] @ x"
      using assms separator_facts by (intro skip_ws_over) simp_all
    then show ?thesis
      by (simp add: m)
  qed
  then show ?thesis
    by (simp add: value_reading_def value_start_def value_end_def)
qed

lemma reading_object:
  assumes ms: "members_reading c ms" and ws: "list_all isJSONWhiteSpace ws"
  shows "value_reading (0x7B # ws @ c) (JObj (object_of ms))"
proof -
  from ms have c: "c \<noteq> []" "hd c = 0x22" "last c = 0x7D"
    and again: "\<And>m x. length c \<le> m \<Longrightarrow> parse_members m (c @ x) = Some (ms, x)"
    by (auto simp: members_reading_def)
  obtain t where ct: "c = 0x22 # t"
    using c(1,2) by (cases c) auto
  have "parse_value m ((0x7B # ws @ c) @ x) = Some (JObj (object_of ms), x)"
    if "length (0x7B # ws @ c) \<le> m" for m x
  proof -
    from that obtain m' where m: "m = Suc m'" "length c \<le> m'"
      by (cases m) auto
    have "skip_ws (ws @ c @ x) = c @ x"
      using ws c separator_facts by (intro skip_ws_over) simp_all
    moreover have "parse_members m' (c @ x) = Some (ms, x)"
      using m(2) by (rule again)
    ultimately show ?thesis
      by (simp add: m(1) ct)
  qed
  then show ?thesis
    using c by (simp add: value_reading_def value_start_def value_end_def)
qed

lemma reading_array:
  assumes vs: "elements_reading c vs" and ws: "list_all isJSONWhiteSpace ws"
  shows "value_reading (0x5B # ws @ c) (JArr vs)"
proof -
  from vs have c: "c \<noteq> []" "value_start (hd c)" "last c = 0x5D"
    and again: "\<And>m x. length c \<le> m \<Longrightarrow> parse_elements m (c @ x) = Some (vs, x)"
    by (auto simp: elements_reading_def)
  obtain a t where ct: "c = a # t"
    using c(1) by (cases c) auto
  have a: "a \<noteq> 0x5D" "\<not> isJSONWhiteSpace a"
    using c(2) value_start_facts ct by auto
  have "parse_value m ((0x5B # ws @ c) @ x) = Some (JArr vs, x)"
    if "length (0x5B # ws @ c) \<le> m" for m x
  proof -
    from that obtain m' where m: "m = Suc m'" "length c \<le> m'"
      by (cases m) auto
    have "skip_ws (ws @ c @ x) = c @ x"
      using ws c(1) a ct by (intro skip_ws_over) simp_all
    moreover have "parse_elements m' (c @ x) = Some (vs, x)"
      using m(2) by (rule again)
    ultimately show ?thesis
      using a by (simp add: m(1) ct)
  qed
  then show ?thesis
    using c by (simp add: value_reading_def value_start_def value_end_def)
qed

lemma reading_last_element:
  assumes v: "value_reading c v" and ws: "list_all isJSONWhiteSpace ws"
  shows "elements_reading (c @ ws @ [0x5D]) [v]"
proof -
  from v have c: "c \<noteq> []" "value_start (hd c)"
    and again: "\<And>m x. length c \<le> m \<Longrightarrow> stops x \<Longrightarrow> parse_value m (c @ x) = Some (v, x)"
    by (auto simp: value_reading_def)
  have "parse_elements m ((c @ ws @ [0x5D]) @ x) = Some ([v], x)"
    if "length (c @ ws @ [0x5D]) \<le> m" for m x
  proof -
    from that obtain m' where m: "m = Suc m'" "length c \<le> m'"
      by (cases m) auto
    have "stops (ws @ 0x5D # x)"
      using ws separator_facts by (intro stops_after_ws)
    then have "parse_value m' (c @ ws @ 0x5D # x) = Some (v, ws @ 0x5D # x)"
      using m(2) by (intro again)
    moreover have "skip_ws (ws @ [0x5D] @ x) = [0x5D] @ x"
      using ws separator_facts by (intro skip_ws_over) simp_all
    ultimately show ?thesis
      by (simp add: m(1))
  qed
  then show ?thesis
    using c by (simp add: elements_reading_def)
qed

lemma reading_more_elements:
  assumes v: "value_reading c v" and ws: "list_all isJSONWhiteSpace ws"
    and ws': "list_all isJSONWhiteSpace ws'" and vs: "elements_reading c' vs"
  shows "elements_reading (c @ ws @ 0x2C # ws' @ c') (v # vs)"
proof -
  from v have c: "c \<noteq> []" "value_start (hd c)"
    and again: "\<And>m x. length c \<le> m \<Longrightarrow> stops x \<Longrightarrow> parse_value m (c @ x) = Some (v, x)"
    by (auto simp: value_reading_def)
  from vs have c': "c' \<noteq> []" "value_start (hd c')" "last c' = 0x5D"
    and again': "\<And>m x. length c' \<le> m \<Longrightarrow> parse_elements m (c' @ x) = Some (vs, x)"
    by (auto simp: elements_reading_def)
  have "parse_elements m ((c @ ws @ 0x2C # ws' @ c') @ x) = Some (v # vs, x)"
    if "length (c @ ws @ 0x2C # ws' @ c') \<le> m" for m x
  proof -
    from that obtain m' where m: "m = Suc m'" "length c \<le> m'" "length c' \<le> m'"
      by (cases m) auto
    have "stops (ws @ 0x2C # ws' @ c' @ x)"
      using ws separator_facts by (intro stops_after_ws)
    then have "parse_value m' (c @ ws @ 0x2C # ws' @ c' @ x) = Some (v, ws @ 0x2C # ws' @ c' @ x)"
      using m(2) by (intro again)
    moreover have "skip_ws (ws @ [0x2C] @ ws' @ c' @ x) = [0x2C] @ ws' @ c' @ x"
      using ws separator_facts by (intro skip_ws_over) simp_all
    moreover have "skip_ws (ws' @ c' @ x) = c' @ x"
      using ws' c' value_start_facts(1) by (intro skip_ws_over) simp_all
    moreover have "parse_elements m' (c' @ x) = Some (vs, x)"
      using m(3) by (rule again')
    ultimately show ?thesis
      by (simp add: m(1))
  qed
  then show ?thesis
    using c c' by (simp add: elements_reading_def)
qed

lemma reading_last_member:
  assumes k: "ck \<noteq> []" "\<forall>x. parse_chars (ck @ x) = Some (k, x)"
    and ws1: "list_all isJSONWhiteSpace ws1" and ws2: "list_all isJSONWhiteSpace ws2"
    and v: "value_reading c v" and ws3: "list_all isJSONWhiteSpace ws3"
  shows "members_reading (0x22 # ck @ ws1 @ 0x3A # ws2 @ c @ ws3 @ [0x7D]) [(k, v)]"
proof -
  from v have c: "c \<noteq> []" "value_start (hd c)"
    and again: "\<And>m x. length c \<le> m \<Longrightarrow> stops x \<Longrightarrow> parse_value m (c @ x) = Some (v, x)"
    by (auto simp: value_reading_def)
  let ?c = "0x22 # ck @ ws1 @ 0x3A # ws2 @ c @ ws3 @ [0x7D]"
  have "parse_members m (?c @ x) = Some ([(k, v)], x)" if "length ?c \<le> m" for m x
  proof -
    from that obtain m' where m: "m = Suc m'" "length c \<le> m'"
      by (cases m) auto
    have "parse_chars (ck @ ws1 @ 0x3A # ws2 @ c @ ws3 @ 0x7D # x) =
        Some (k, ws1 @ 0x3A # ws2 @ c @ ws3 @ 0x7D # x)"
      using k(2) by simp
    moreover have "skip_ws (ws1 @ [0x3A] @ ws2 @ c @ ws3 @ 0x7D # x) = [0x3A] @ ws2 @ c @ ws3 @ 0x7D # x"
      using ws1 separator_facts by (intro skip_ws_over) simp_all
    moreover have "skip_ws (ws2 @ c @ ws3 @ 0x7D # x) = c @ ws3 @ 0x7D # x"
      using ws2 c value_start_facts(1) by (intro skip_ws_over) simp_all
    moreover have "stops (ws3 @ 0x7D # x)"
      using ws3 separator_facts by (intro stops_after_ws)
    then have "parse_value m' (c @ ws3 @ 0x7D # x) = Some (v, ws3 @ 0x7D # x)"
      using m(2) by (intro again)
    moreover have "skip_ws (ws3 @ [0x7D] @ x) = [0x7D] @ x"
      using ws3 separator_facts by (intro skip_ws_over) simp_all
    ultimately show ?thesis
      by (simp add: m(1))
  qed
  then show ?thesis
    by (simp add: members_reading_def)
qed

lemma reading_more_members:
  assumes k: "ck \<noteq> []" "\<forall>x. parse_chars (ck @ x) = Some (k, x)"
    and ws1: "list_all isJSONWhiteSpace ws1" and ws2: "list_all isJSONWhiteSpace ws2"
    and v: "value_reading c v" and ws3: "list_all isJSONWhiteSpace ws3"
    and ws4: "list_all isJSONWhiteSpace ws4" and ms: "members_reading c' ms"
  shows "members_reading (0x22 # ck @ ws1 @ 0x3A # ws2 @ c @ ws3 @ 0x2C # ws4 @ c') ((k, v) # ms)"
proof -
  from v have c: "c \<noteq> []" "value_start (hd c)"
    and again: "\<And>m x. length c \<le> m \<Longrightarrow> stops x \<Longrightarrow> parse_value m (c @ x) = Some (v, x)"
    by (auto simp: value_reading_def)
  from ms have c': "c' \<noteq> []" "hd c' = 0x22" "last c' = 0x7D"
    and again': "\<And>m x. length c' \<le> m \<Longrightarrow> parse_members m (c' @ x) = Some (ms, x)"
    by (auto simp: members_reading_def)
  let ?c = "0x22 # ck @ ws1 @ 0x3A # ws2 @ c @ ws3 @ 0x2C # ws4 @ c'"
  have "parse_members m (?c @ x) = Some ((k, v) # ms, x)" if "length ?c \<le> m" for m x
  proof -
    from that obtain m' where m: "m = Suc m'" "length c \<le> m'" "length c' \<le> m'"
      by (cases m) auto
    have "parse_chars (ck @ ws1 @ 0x3A # ws2 @ c @ ws3 @ 0x2C # ws4 @ c' @ x) =
        Some (k, ws1 @ 0x3A # ws2 @ c @ ws3 @ 0x2C # ws4 @ c' @ x)"
      using k(2) by simp
    moreover have "skip_ws (ws1 @ [0x3A] @ ws2 @ c @ ws3 @ 0x2C # ws4 @ c' @ x) =
        [0x3A] @ ws2 @ c @ ws3 @ 0x2C # ws4 @ c' @ x"
      using ws1 separator_facts by (intro skip_ws_over) simp_all
    moreover have "skip_ws (ws2 @ c @ ws3 @ 0x2C # ws4 @ c' @ x) = c @ ws3 @ 0x2C # ws4 @ c' @ x"
      using ws2 c value_start_facts(1) by (intro skip_ws_over) simp_all
    moreover have "stops (ws3 @ 0x2C # ws4 @ c' @ x)"
      using ws3 separator_facts by (intro stops_after_ws)
    then have "parse_value m' (c @ ws3 @ 0x2C # ws4 @ c' @ x) = Some (v, ws3 @ 0x2C # ws4 @ c' @ x)"
      using m(2) by (intro again)
    moreover have "skip_ws (ws3 @ [0x2C] @ ws4 @ c' @ x) = [0x2C] @ ws4 @ c' @ x"
      using ws3 separator_facts by (intro skip_ws_over) simp_all
    moreover have "skip_ws (ws4 @ c' @ x) = c' @ x"
      using ws4 c' separator_facts by (intro skip_ws_over) simp_all
    moreover have "parse_members m' (c' @ x) = Some (ms, x)"
      using m(3) by (rule again')
    ultimately show ?thesis
      by (simp add: m(1))
  qed
  then show ?thesis
    using c' by (simp add: members_reading_def)
qed

section \<open>Every successful parse reads such a text\<close>

lemma parse_value_step:
  assumes "parse_value (Suc n) s = Some (v, r)"
  obtains (empty_object) t where "s = 0x7B # t" "skip_ws t = 0x7D # r" "v = JObj []"
    | (object) t ms where "s = 0x7B # t" "parse_members n (skip_ws t) = Some (ms, r)"
        "v = JObj (object_of ms)"
    | (empty_array) t where "s = 0x5B # t" "skip_ws t = 0x5D # r" "v = JArr []"
    | (array) t vs where "s = 0x5B # t" "parse_elements n (skip_ws t) = Some (vs, r)" "v = JArr vs"
    | (string) t str where "s = 0x22 # t" "parse_chars t = Some (str, r)" "v = JStr str"
    | (true) "literal (js ''true'') (JBool True) s = Some (v, r)"
    | (false) "literal (js ''false'') (JBool False) s = Some (v, r)"
    | (null) "literal (js ''null'') JNull s = Some (v, r)"
    | (number) num where "scan_number s = Some (num, r)" "v = JNum num"
proof -
  from assms obtain c t where s: "s = c # t"
    by (cases s) auto
  show ?thesis
  proof (cases "c = 0x7B")
    case True
    with assms s obtain d u where d: "skip_ws t = d # u"
      by (cases "skip_ws t") auto
    show ?thesis
    proof (cases "d = 0x7D")
      case True
      with assms s \<open>c = 0x7B\<close> d empty_object show ?thesis by simp
    next
      case False
      with assms s \<open>c = 0x7B\<close> d object show ?thesis
        by (cases "parse_members n (d # u)") auto
    qed
  next
    case False
    note not_brace = this
    show ?thesis
    proof (cases "c = 0x5B")
      case True
      with assms s obtain d u where d: "skip_ws t = d # u"
        by (cases "skip_ws t") auto
      show ?thesis
      proof (cases "d = 0x5D")
        case True
        with assms s \<open>c = 0x5B\<close> d empty_array show ?thesis by simp
      next
        case False
        with assms s \<open>c = 0x5B\<close> d array show ?thesis
          by (cases "parse_elements n (d # u)") auto
      qed
    next
      case False
      note not_bracket = this
      show ?thesis
      proof (cases "c = 0x22")
        case True
        with assms s string show ?thesis
          by (cases "parse_chars t") auto
      next
        case False
        note not_quote = this
        show ?thesis
        proof (cases "c = 0x74")
          case True
          with assms s true show ?thesis by simp
        next
          case False
          note not_t = this
          show ?thesis
          proof (cases "c = 0x66")
            case True
            with assms s false show ?thesis by simp
          next
            case False
            note not_f = this
            show ?thesis
            proof (cases "c = 0x6E")
              case True
              with assms s null show ?thesis by simp
            next
              case False
              with assms s not_brace not_bracket not_quote not_t not_f number show ?thesis
                by (cases "scan_number (c # t)") auto
            qed
          qed
        qed
      qed
    qed
  qed
qed

lemma parse_elements_step:
  assumes "parse_elements (Suc n) s = Some (vs, r)"
  obtains (last) v r1 where "parse_value n s = Some (v, r1)" "skip_ws r1 = 0x5D # r" "vs = [v]"
    | (more) v r1 t vs' where "parse_value n s = Some (v, r1)" "skip_ws r1 = 0x2C # t"
        "parse_elements n (skip_ws t) = Some (vs', r)" "vs = v # vs'"
proof -
  from assms obtain v r1 where v: "parse_value n s = Some (v, r1)"
    by (cases "parse_value n s") auto
  with assms obtain c t where c: "skip_ws r1 = c # t"
    by (cases "skip_ws r1") auto
  show ?thesis
  proof (cases "c = 0x2C")
    case True
    with assms v c more show ?thesis
      by (cases "parse_elements n (skip_ws t)") auto
  next
    case False
    with assms v c last show ?thesis
      by (auto split: if_splits)
  qed
qed

lemma parse_members_step:
  assumes "parse_members (Suc n) s = Some (ms, r)"
  obtains (last) t k r0 t1 v r1 where "s = 0x22 # t" "parse_chars t = Some (k, r0)"
        "skip_ws r0 = 0x3A # t1" "parse_value n (skip_ws t1) = Some (v, r1)"
        "skip_ws r1 = 0x7D # r" "ms = [(k, v)]"
    | (more) t k r0 t1 v r1 t2 ms' where "s = 0x22 # t" "parse_chars t = Some (k, r0)"
        "skip_ws r0 = 0x3A # t1" "parse_value n (skip_ws t1) = Some (v, r1)"
        "skip_ws r1 = 0x2C # t2" "parse_members n (skip_ws t2) = Some (ms', r)" "ms = (k, v) # ms'"
proof -
  from assms obtain q t where s: "s = q # t"
    by (cases s) auto
  with assms have q: "q = 0x22"
    by (auto split: if_splits)
  from assms s q obtain k r0 where k: "parse_chars t = Some (k, r0)"
    by (cases "parse_chars t") auto
  from assms s q k obtain c t1 where c: "skip_ws r0 = c # t1"
    by (cases "skip_ws r0") auto
  from assms s q k c have colon: "c = 0x3A"
    by (auto split: if_splits)
  from assms s q k c colon obtain v r1 where v: "parse_value n (skip_ws t1) = Some (v, r1)"
    by (cases "parse_value n (skip_ws t1)") auto
  from assms s q k c colon v obtain d t2 where d: "skip_ws r1 = d # t2"
    by (cases "skip_ws r1") auto
  show ?thesis
  proof (cases "d = 0x2C")
    case True
    with assms s q k c colon v d more show ?thesis
      by (cases "parse_members n (skip_ws t2)") auto
  next
    case False
    with assms s q k c colon v d last show ?thesis
      by (auto split: if_splits)
  qed
qed

lemma parse_reads:
  "(\<forall>s v r. parse_value n s = Some (v, r) \<longrightarrow> (\<exists>c. s = c @ r \<and> value_reading c v)) \<and>
   (\<forall>s vs r. parse_elements n s = Some (vs, r) \<longrightarrow> (\<exists>c. s = c @ r \<and> elements_reading c vs)) \<and>
   (\<forall>s ms r. parse_members n s = Some (ms, r) \<longrightarrow> (\<exists>c. s = c @ r \<and> members_reading c ms))"
proof (induction n)
  case 0
  show ?case by simp
next
  case (Suc n)
  then have V: "\<And>s v r. parse_value n s = Some (v, r) \<Longrightarrow> \<exists>c. s = c @ r \<and> value_reading c v"
    and E: "\<And>s vs r. parse_elements n s = Some (vs, r) \<Longrightarrow> \<exists>c. s = c @ r \<and> elements_reading c vs"
    and M: "\<And>s ms r. parse_members n s = Some (ms, r) \<Longrightarrow> \<exists>c. s = c @ r \<and> members_reading c ms"
    by blast+
  have for_value: "\<exists>c. s = c @ r \<and> value_reading c v" if "parse_value (Suc n) s = Some (v, r)" for s v r
    using that
  proof (cases rule: parse_value_step)
    case (empty_object t)
    from skip_ws_one [OF empty_object(2)] obtain ws where ws: "t = ws @ 0x7D # r" "list_all isJSONWhiteSpace ws"
      by blast
    have "s = (0x7B # ws @ [0x7D]) @ r"
      using empty_object(1) ws(1) by simp
    moreover have "value_reading (0x7B # ws @ [0x7D]) v"
      unfolding empty_object(3) using ws(2) by (rule reading_empty_object)
    ultimately show ?thesis by blast
  next
    case (object t ms)
    from M [OF object(2)] obtain c where c: "skip_ws t = c @ r" "members_reading c ms"
      by blast
    then have "c \<noteq> []" by (simp add: members_reading_def)
    from skip_ws_reads [OF c(1) this] obtain ws where ws: "t = ws @ c @ r" "list_all isJSONWhiteSpace ws"
      by blast
    have "s = (0x7B # ws @ c) @ r"
      using object(1) ws(1) by simp
    moreover have "value_reading (0x7B # ws @ c) v"
      unfolding object(3) using c(2) ws(2) by (rule reading_object)
    ultimately show ?thesis by blast
  next
    case (empty_array t)
    from skip_ws_one [OF empty_array(2)] obtain ws where ws: "t = ws @ 0x5D # r" "list_all isJSONWhiteSpace ws"
      by blast
    have "s = (0x5B # ws @ [0x5D]) @ r"
      using empty_array(1) ws(1) by simp
    moreover have "value_reading (0x5B # ws @ [0x5D]) v"
      unfolding empty_array(3) using ws(2) by (rule reading_empty_array)
    ultimately show ?thesis by blast
  next
    case (array t vs)
    from E [OF array(2)] obtain c where c: "skip_ws t = c @ r" "elements_reading c vs"
      by blast
    then have "c \<noteq> []" by (simp add: elements_reading_def)
    from skip_ws_reads [OF c(1) this] obtain ws where ws: "t = ws @ c @ r" "list_all isJSONWhiteSpace ws"
      by blast
    have "s = (0x5B # ws @ c) @ r"
      using array(1) ws(1) by simp
    moreover have "value_reading (0x5B # ws @ c) v"
      unfolding array(3) using c(2) ws(2) by (rule reading_array)
    ultimately show ?thesis by blast
  next
    case (string t str)
    from parse_chars_reads [OF string(2)] obtain c where c: "t = c @ r" "c \<noteq> []" "last c = 0x22"
        "\<forall>x. parse_chars (c @ x) = Some (str, x)"
      by blast
    have "s = (0x22 # c) @ r"
      using string(1) c(1) by simp
    moreover have "value_reading (0x22 # c) v"
      unfolding string(3) using c(2,3,4) by (rule reading_string)
    ultimately show ?thesis by blast
  next
    case true
    from literal_reads(1,2) [OF true] reading_literal(1) show ?thesis by blast
  next
    case false
    from literal_reads(1,2) [OF false] reading_literal(2) show ?thesis by blast
  next
    case null
    from literal_reads(1,2) [OF null] reading_literal(3) show ?thesis by blast
  next
    case (number num)
    note N = scan_number_reads [OF number(1)]
    have "value_reading num v"
      unfolding number(2) using N(2,3,4,5) by (rule reading_number)
    with N(1) show ?thesis by blast
  qed
  have for_elements: "\<exists>c. s = c @ r \<and> elements_reading c vs"
    if "parse_elements (Suc n) s = Some (vs, r)" for s vs r
    using that
  proof (cases rule: parse_elements_step)
    case (last v r1)
    from V [OF last(1)] obtain c where c: "s = c @ r1" "value_reading c v"
      by blast
    from skip_ws_one [OF last(2)] obtain ws where ws: "r1 = ws @ 0x5D # r" "list_all isJSONWhiteSpace ws"
      by blast
    have "s = (c @ ws @ [0x5D]) @ r"
      using c(1) ws(1) by simp
    moreover have "elements_reading (c @ ws @ [0x5D]) vs"
      unfolding last(3) using c(2) ws(2) by (rule reading_last_element)
    ultimately show ?thesis by blast
  next
    case (more v r1 t vs')
    from V [OF more(1)] obtain c where c: "s = c @ r1" "value_reading c v"
      by blast
    from skip_ws_one [OF more(2)] obtain ws where ws: "r1 = ws @ 0x2C # t" "list_all isJSONWhiteSpace ws"
      by blast
    from E [OF more(3)] obtain c' where c': "skip_ws t = c' @ r" "elements_reading c' vs'"
      by blast
    then have "c' \<noteq> []" by (simp add: elements_reading_def)
    from skip_ws_reads [OF c'(1) this] obtain ws' where ws': "t = ws' @ c' @ r" "list_all isJSONWhiteSpace ws'"
      by blast
    have "s = (c @ ws @ 0x2C # ws' @ c') @ r"
      using c(1) ws(1) ws'(1) by simp
    moreover have "elements_reading (c @ ws @ 0x2C # ws' @ c') vs"
      unfolding more(4) using c(2) ws(2) ws'(2) c'(2) by (rule reading_more_elements)
    ultimately show ?thesis by blast
  qed
  have for_members: "\<exists>c. s = c @ r \<and> members_reading c ms"
    if "parse_members (Suc n) s = Some (ms, r)" for s ms r
    using that
  proof (cases rule: parse_members_step)
    case (last t k r0 t1 v r1)
    from parse_chars_reads [OF last(2)] obtain ck where ck: "t = ck @ r0" "ck \<noteq> []"
        "\<forall>x. parse_chars (ck @ x) = Some (k, x)"
      by blast
    from skip_ws_one [OF last(3)] obtain ws1 where ws1: "r0 = ws1 @ 0x3A # t1" "list_all isJSONWhiteSpace ws1"
      by blast
    from V [OF last(4)] obtain c where c: "skip_ws t1 = c @ r1" "value_reading c v"
      by blast
    then have "c \<noteq> []" by (simp add: value_reading_def)
    from skip_ws_reads [OF c(1) this] obtain ws2 where ws2: "t1 = ws2 @ c @ r1" "list_all isJSONWhiteSpace ws2"
      by blast
    from skip_ws_one [OF last(5)] obtain ws3 where ws3: "r1 = ws3 @ 0x7D # r" "list_all isJSONWhiteSpace ws3"
      by blast
    have "s = (0x22 # ck @ ws1 @ 0x3A # ws2 @ c @ ws3 @ [0x7D]) @ r"
      using last(1) ck(1) ws1(1) ws2(1) ws3(1) by simp
    moreover have "members_reading (0x22 # ck @ ws1 @ 0x3A # ws2 @ c @ ws3 @ [0x7D]) ms"
      unfolding last(6) using ck(2,3) ws1(2) ws2(2) c(2) ws3(2) by (rule reading_last_member)
    ultimately show ?thesis by blast
  next
    case (more t k r0 t1 v r1 t2 ms')
    from parse_chars_reads [OF more(2)] obtain ck where ck: "t = ck @ r0" "ck \<noteq> []"
        "\<forall>x. parse_chars (ck @ x) = Some (k, x)"
      by blast
    from skip_ws_one [OF more(3)] obtain ws1 where ws1: "r0 = ws1 @ 0x3A # t1" "list_all isJSONWhiteSpace ws1"
      by blast
    from V [OF more(4)] obtain c where c: "skip_ws t1 = c @ r1" "value_reading c v"
      by blast
    then have "c \<noteq> []" by (simp add: value_reading_def)
    from skip_ws_reads [OF c(1) this] obtain ws2 where ws2: "t1 = ws2 @ c @ r1" "list_all isJSONWhiteSpace ws2"
      by blast
    from skip_ws_one [OF more(5)] obtain ws3 where ws3: "r1 = ws3 @ 0x2C # t2" "list_all isJSONWhiteSpace ws3"
      by blast
    from M [OF more(6)] obtain c' where c': "skip_ws t2 = c' @ r" "members_reading c' ms'"
      by blast
    then have "c' \<noteq> []" by (simp add: members_reading_def)
    from skip_ws_reads [OF c'(1) this] obtain ws4 where ws4: "t2 = ws4 @ c' @ r" "list_all isJSONWhiteSpace ws4"
      by blast
    have "s = (0x22 # ck @ ws1 @ 0x3A # ws2 @ c @ ws3 @ 0x2C # ws4 @ c') @ r"
      using more(1) ck(1) ws1(1) ws2(1) ws3(1) ws4(1) by simp
    moreover have "members_reading (0x22 # ck @ ws1 @ 0x3A # ws2 @ c @ ws3 @ 0x2C # ws4 @ c') ms"
      unfolding more(7) using ck(2,3) ws1(2) ws2(2) c(2) ws3(2) ws4(2) c'(2)
      by (rule reading_more_members)
    ultimately show ?thesis by blast
  qed
  from for_value for_elements for_members show ?case by blast
qed

lemma parse_value_reads:
  assumes "parse_value n s = Some (v, r)"
  obtains c where "s = c @ r" and "value_reading c v"
  using parse_reads [of n] assms by blast

lemma JSON_parse_reading:
  assumes c: "value_reading c v"
    and ws: "list_all isJSONWhiteSpace ws" and ws': "list_all isJSONWhiteSpace ws'"
  shows "JSON_parse (ws @ c @ ws') = Some v"
proof -
  from c have ne: "c \<noteq> []" and st: "value_start (hd c)"
    and again: "\<And>m x. length c \<le> m \<Longrightarrow> stops x \<Longrightarrow> parse_value m (c @ x) = Some (v, x)"
    by (auto simp: value_reading_def)
  have skip: "skip_ws (ws @ c @ ws') = c @ ws'"
    using ws ne st value_start_facts(1) by (intro skip_ws_over) simp_all
  have "parse_value (length (c @ ws')) (c @ ws') = Some (v, ws')"
    using stops_ws [OF ws'] by (intro again) simp_all
  then show ?thesis
    using ws' by (simp add: JSON_parse_def skip skip_ws_Nil_iff)
qed

lemma complete_parse_reads:
  assumes "parse_value n (skip_ws s) = Some (v, r)" and "skip_ws r = []"
  shows "\<exists>ws c. s = ws @ c @ r \<and> list_all isJSONWhiteSpace ws \<and> list_all isJSONWhiteSpace r \<and>
           value_reading c v"
proof -
  from assms(1) obtain c where c: "skip_ws s = c @ r" "value_reading c v"
    by (rule parse_value_reads)
  then have "c \<noteq> []" by (simp add: value_reading_def)
  from skip_ws_reads [OF c(1) this] obtain ws where ws: "s = ws @ c @ r" "list_all isJSONWhiteSpace ws"
    by blast
  have "list_all isJSONWhiteSpace r"
    using assms(2) by (simp add: skip_ws_Nil_iff)
  with ws c(2) show ?thesis
    by (intro exI [of _ ws] exI [of _ c]) simp
qed

lemma JSON_parse_reads:
  assumes "JSON_parse s = Some v"
  shows "\<exists>ws c ws'. s = ws @ c @ ws' \<and> list_all isJSONWhiteSpace ws \<and>
           list_all isJSONWhiteSpace ws' \<and> value_reading c v"
proof -
  obtain r where r: "parse_value (length (skip_ws s)) (skip_ws s) = Some (v, r)" "skip_ws r = []"
  proof (cases "parse_value (length (skip_ws s)) (skip_ws s)")
    case None
    with assms show ?thesis by (simp add: JSON_parse_def)
  next
    case (Some p)
    obtain v' r' where p: "p = (v', r')" by (cases p)
    with Some assms that show ?thesis
      by (simp add: JSON_parse_def split: if_splits)
  qed
  from complete_parse_reads [OF r] obtain ws c where
    "s = ws @ c @ r" "list_all isJSONWhiteSpace ws" "list_all isJSONWhiteSpace r" "value_reading c v"
    by blast
  then show ?thesis
    by (intro exI [of _ ws] exI [of _ c] exI [of _ r]) simp
qed

text \<open>The bound on the depth: if any bound gives a complete parse, the length of the text does.\<close>

lemma JSON_parse_fuel:
  assumes "parse_value n (skip_ws s) = Some (v, r)" and "skip_ws r = []"
  shows "JSON_parse s = Some v"
proof -
  from complete_parse_reads [OF assms] obtain ws c where s: "s = ws @ c @ r"
    and ws: "list_all isJSONWhiteSpace ws" "list_all isJSONWhiteSpace r"
    and c: "value_reading c v"
    by blast
  show ?thesis
    unfolding s using c ws by (rule JSON_parse_reading)
qed

section \<open>Cleaning a JSON text, bare or fenced\<close>

lemma trim_reads:
  assumes "list_all isWhiteSpace ws" and "list_all isWhiteSpace ws'"
    and "c \<noteq> []" and "\<not> isWhiteSpace (hd c)" and "\<not> isWhiteSpace (last c)"
  shows "trim (ws @ c @ ws') = c"
proof -
  have "dropWhile isWhiteSpace (ws @ c @ ws') = dropWhile isWhiteSpace (c @ ws')"
    using assms(1) by (intro dropWhile_append2) (simp add: list_all_iff)
  also have "\<dots> = c @ ws'"
    using assms(3,4) by (cases c) auto
  finally have front: "dropWhile isWhiteSpace (ws @ c @ ws') = c @ ws'" .
  have "dropWhile isWhiteSpace (rev ws' @ rev c) = dropWhile isWhiteSpace (rev c)"
    using assms(2) by (intro dropWhile_append2) (simp add: list_all_iff)
  also have "\<dots> = rev c"
    using assms(3,5) by (cases "rev c") (auto simp: hd_rev [symmetric])
  finally show ?thesis
    by (simp add: trim_def front)
qed

lemma strip_open_fence_other:
  assumes "c \<noteq> []" and "hd c \<noteq> 0x60"
  shows "strip_open_fence c = c"
  using assms by (cases c) (auto simp: strip_open_fence_def fence_def)

lemma strip_close_fence_other:
  assumes "c \<noteq> []" and "last c \<noteq> 0x60"
  shows "strip_close_fence c = c"
proof -
  have "drop (length c - 3) c \<noteq> fence"
  proof
    assume f: "drop (length c - 3) c = fence"
    have "last c = last (drop (length c - 3) c)"
      using assms(1) by (intro last_drop [symmetric]) (cases c; simp)
    then show False
      using f assms(2) by (simp add: fence_def)
  qed
  then show ?thesis
    by (simp add: strip_close_fence_def)
qed

lemma strip_open_fence_json:
  assumes "json_tag tag"
  shows "strip_open_fence (fence @ tag @ t) = dropWhile isWhiteSpace t"
proof -
  from assms obtain a b c d where tag: "tag = [a, b, c, d]"
    by (auto simp: json_tag_def split: list.splits)
  show ?thesis
    using assms by (simp add: strip_open_fence_def fence_def tag)
qed

lemma strip_close_fence_fence: "strip_close_fence (y @ fence) = y"
  by (simp add: strip_close_fence_def fence_def)

lemma cleaned_json:
  assumes "value_reading c v"
    and "list_all isJSONWhiteSpace ws" and "list_all isJSONWhiteSpace ws'"
  shows "cleaned (ws @ c @ ws') = c"
proof -
  from assms(1) have c: "c \<noteq> []" "value_start (hd c)" "value_end (last c)"
    by (auto simp: value_reading_def)
  have "trim (ws @ c @ ws') = c"
    using assms(2,3) c value_start_facts(2) value_end_facts(1)
    by (intro trim_reads list_all_JSON_ws) simp_all
  moreover have "strip_open_fence c = c"
    using c value_start_facts(3) by (intro strip_open_fence_other) simp_all
  moreover have "strip_close_fence c = c"
    using c value_end_facts(2) by (intro strip_close_fence_other) simp_all
  ultimately show ?thesis
    by (simp add: cleaned_def)
qed

lemma cleaned_fenced:
  assumes "value_reading c v"
    and "list_all isJSONWhiteSpace ws" and "list_all isJSONWhiteSpace ws'"
    and "json_tag tag" and "list_all isWhiteSpace sp"
    and "list_all isWhiteSpace before" and "list_all isWhiteSpace after"
  shows "cleaned (before @ fence @ tag @ sp @ (ws @ c @ ws') @ nl @ fence @ after) = c @ ws' @ nl"
proof -
  from assms(1) have c: "c \<noteq> []" "value_start (hd c)"
    by (auto simp: value_reading_def)
  let ?t = "fence @ tag @ sp @ (ws @ c @ ws') @ nl @ fence"
  have "trim (before @ ?t @ after) = ?t"
    using assms(6,7) by (intro trim_reads) (simp_all add: fence_def isWhiteSpace_def)
  then have 1: "trim (before @ fence @ tag @ sp @ (ws @ c @ ws') @ nl @ fence @ after) = ?t"
    by simp
  have 2: "strip_open_fence ?t = dropWhile isWhiteSpace (sp @ (ws @ c @ ws') @ nl @ fence)"
    using assms(4) by (rule strip_open_fence_json)
  have "dropWhile isWhiteSpace ((sp @ ws) @ c @ ws' @ nl @ fence) =
        dropWhile isWhiteSpace (c @ ws' @ nl @ fence)"
    using assms(2,5) list_all_JSON_ws by (intro dropWhile_append2) (auto simp: list_all_iff)
  also have "\<dots> = c @ ws' @ nl @ fence"
    using c value_start_facts(2) by (cases c) auto
  finally have 3: "dropWhile isWhiteSpace (sp @ (ws @ c @ ws') @ nl @ fence) = (c @ ws' @ nl) @ fence"
    by simp
  show ?thesis
    unfolding cleaned_def 1 2 3 by (rule strip_close_fence_fence)
qed

section \<open>The handlers, case by case\<close>

lemma get_prop_object: "get_prop b k = Some v \<Longrightarrow> truthy b \<and> b \<noteq> JNull"
  by (cases b) (simp_all add: get_prop_def)

lemma prompt_rejected_iff:
  "prompt_rejected p \<longleftrightarrow> (\<forall>s. p = Some (JStr s) \<longrightarrow> trim s = [])"
proof (cases p)
  case None
  then show ?thesis by (simp add: prompt_rejected_def)
next
  case (Some v)
  then show ?thesis
    by (cases v) (auto simp: prompt_rejected_def js_typeof_def js_def trim_Nil)
qed

lemma destructure_or_empty:
  "destructure (if truthy b then b else JObj []) k = Inr (get_prop (if truthy b then b else JObj []) k)"
  by (cases b) (simp_all add: destructure_def)

lemma POST_cases:
  assumes "k \<noteq> []"
  shows "POST (Some k) too_deep upstream rq =
     (case request_json rq of
        None \<Rightarrow> Inr (json_response 400 (error_body ''Invalid JSON body.''))
      | Some b \<Rightarrow>
          (case get_prop (if truthy b then b else JObj []) (js ''prompt'') of
             Some (JStr s) \<Rightarrow>
               if trim s = [] then Inr (json_response 400 (error_body prompt_required_message))
               else
                 (case upstream (generate_call (GoogleGenerativeAI k) s) of
                    UpstreamError \<Rightarrow> Inr (json_response 500 (error_body ''Error while calling Gemini API.''))
                  | UpstreamText t \<Rightarrow>
                      (case JSON_parse (cleaned t) of
                         None \<Rightarrow>
                           Inr (json_response 502
                                  (JObj [(js ''error'', JStr (js ''Gemini returned an invalid JSON response.'')),
                                         (js ''raw'', JStr (cleaned t))]))
                       | Some j \<Rightarrow>
                           if too_deep j then
                             Inr (json_response 500 (error_body ''Error while calling Gemini API.''))
                           else Inr (json_response 200 (serialised j))))
           | _ \<Rightarrow> Inr (json_response 400 (error_body prompt_required_message))))"
proof (cases "request_json rq")
  case None
  then show ?thesis using assms by (simp add: POST_def genAI_def)
next
  case (Some b)
  show ?thesis
  proof (cases "get_prop (if truthy b then b else JObj []) (js ''prompt'')")
    case None
    with Some show ?thesis
      using assms by (simp add: POST_def genAI_def destructure_or_empty prompt_rejected_iff)
  next
    case (Some v)
    with \<open>request_json rq = Some b\<close> show ?thesis
      using assms
      by (cases v) (simp_all add: POST_def genAI_def destructure_or_empty prompt_rejected_iff)
  qed
qed

lemma POST_no_key:
  assumes "apiKey = None \<or> apiKey = Some []"
  shows "POST apiKey too_deep upstream rq = Inr (json_response 500 (error_body missing_key_message))"
  using assms by (auto simp: POST_def genAI_def)

lemma POST_same_parse:
  assumes "JSON_parse (cleaned t) = Some v" and "JSON_parse (cleaned t') = Some v"
  shows "POST apiKey too_deep (reply_with t) rq = POST apiKey too_deep (reply_with t') rq"
proof (cases "apiKey = None \<or> apiKey = Some []")
  case True
  then show ?thesis by (simp add: POST_no_key)
next
  case False
  then obtain k where k: "apiKey = Some k" "k \<noteq> []"
    by (cases apiKey) auto
  show ?thesis
    unfolding k(1) POST_cases [OF k(2)]
    by (simp add: reply_with_def assms split: option.splits json.splits)
qed

lemma POST_accepted:
  assumes "k \<noteq> []"
    and "request_json rq = Some b"
    and "get_prop b (js ''prompt'') = Some (JStr p)"
    and "trim p \<noteq> []"
  shows "POST (Some k) too_deep upstream rq =
     (case upstream (generate_call (GoogleGenerativeAI k) p) of
        UpstreamError \<Rightarrow> Inr (json_response 500 (error_body ''Error while calling Gemini API.''))
      | UpstreamText t \<Rightarrow>
          (case JSON_parse (cleaned t) of
             None \<Rightarrow>
               Inr (json_response 502
                      (JObj [(js ''error'', JStr (js ''Gemini returned an invalid JSON response.'')),
                             (js ''raw'', JStr (cleaned t))]))
           | Some j \<Rightarrow>
               if too_deep j then
                 Inr (json_response 500 (error_body ''Error while calling Gemini API.''))
               else Inr (json_response 200 (serialised j))))"
proof -
  from assms(3) have "truthy b"
    using get_prop_object by blast
  then show ?thesis
    using assms by (simp add: POST_cases)
qed

text \<open>The serialisation changes a value in its numbers only.\<close>

lemma serialised_plain: "plain_numbers j \<Longrightarrow> serialised j = j"
  by (induction j) (auto simp: list_all_iff intro!: map_idI)

lemma handleAnalyze_failed:
  assumes "trim (prompt st) \<noteq> []"
    and "attempt ToString (fetch (analyze_call (prompt st))) = Inl e"
  shows "handleAnalyze ToString fetch st =
           (st\<lparr>isAnalyzing := False, error := Some (caught_message e)\<rparr>, [analyze_call (prompt st)])"
  using assms by (simp add: handleAnalyze_def Let_def)

lemma error_message_string:
  assumes "get_prop d (js ''error'') = Some (JStr m)"
  shows "error_message ToString d = m"
proof -
  have "d \<noteq> JNull"
    using assms by (auto simp: get_prop_def)
  then show ?thesis
    using assms by (simp add: error_message_def opt_chain_def nullish_or_def)
qed

lemma error_message_fallback:
  assumes "d = JNull \<or> get_prop d (js ''error'') = None \<or> get_prop d (js ''error'') = Some JNull"
  shows "error_message ToString d = js ''Failed to analyze prompt.''"
  using assms by (auto simp: error_message_def opt_chain_def nullish_or_def)

section \<open>Sample inputs\<close>

lemma sample_key: "js ''key'' \<noteq> []"
  by (simp add: js_def)

lemma sample_request:
  \<open>request_json \<lparr>body_text = js ''{"prompt": "Write something."}''\<rparr>
      = Some (JObj [(js ''prompt'', JStr (js ''Write something.''))])\<close>
  by (simp add: request_json_def parser_defs)

lemma sample_nonblank: "trim (js ''Write something.'') \<noteq> []"
  by (simp add: trim_def js_def isWhiteSpace_def)

lemma sample_analysis:
  \<open>JSON_parse (js ''{"overallScore": 42}'') = Some (JObj [(js ''overallScore'', JNum (js ''42''))])\<close>
  by (simp add: parser_defs)

lemma json_texts:
  \<open>JSON_parse (js ''null'') = Some JNull\<close>
  \<open>JSON_parse (js ''false'') = Some (JBool False)\<close>
  \<open>JSON_parse (js ''true'') = Some (JBool True)\<close>
  \<open>JSON_parse (js ''0'') = Some (JNum (js ''0''))\<close>
  \<open>JSON_parse (js ''42'') = Some (JNum (js ''42''))\<close>
  \<open>JSON_parse (js ''""'') = Some (JStr [])\<close>
  \<open>JSON_parse (js ''"prompt"'') = Some (JStr (js ''prompt''))\<close>
  \<open>JSON_parse (js ''["prompt"]'') = Some (JArr [JStr (js ''prompt'')])\<close>
  \<open>JSON_parse (js ''{"text": "hi"}'') = Some (JObj [(js ''text'', JStr (js ''hi''))])\<close>
  by (simp_all add: parser_defs)

lemma malformed_request: "request_json \<lparr>body_text = js ''{not json''\<rparr> = None"
  by (simp add: request_json_def parser_defs)

section \<open>The claims\<close>

text \<open>
  Claim C1, as amended. With the credential configured, a body whose \<open>prompt\<close> is a string
  that is not empty after trimming, an upstream reply whose cleaned text parses as JSON to
  a value \<open>j\<close>, and \<open>j\<close> not nested too deeply for \<open>JSON.stringify\<close>, the endpoint responds 200
  and the body is \<open>j\<close> as \<open>JSON.stringify\<close> writes it, whatever the shape of \<open>j\<close>: nothing is
  validated, clamped or reordered, and the only changes are those of the serialisation,
  which writes a number that is not finite as \<open>null\<close> and negative zero as \<open>0\<close>. When every
  number of \<open>j\<close> is finite and none is negative zero, the body is exactly \<open>j\<close>.
\<close>

theorem pass_through:
  assumes "k \<noteq> []"
    and "request_json rq = Some b"
    and "get_prop b (js ''prompt'') = Some (JStr p)"
    and "trim p \<noteq> []"
    and "upstream (generate_call (GoogleGenerativeAI k) p) = UpstreamText t"
    and "JSON_parse (cleaned t) = Some j"
    and "\<not> too_deep j"
  shows "POST (Some k) too_deep upstream rq =
           Inr \<lparr>status = 200, headers = [(js ''Content-Type'', js ''application/json'')],
                body = serialised j\<rparr> \<and>
         (plain_numbers j \<longrightarrow>
            POST (Some k) too_deep upstream rq =
              Inr \<lparr>status = 200, headers = [(js ''Content-Type'', js ''application/json'')],
                   body = j\<rparr>)"
proof -
  have "POST (Some k) too_deep upstream rq = Inr (json_response 200 (serialised j))"
    using assms(5-7) by (simp add: POST_accepted [OF assms(1-4)])
  then show ?thesis
    by (simp add: json_response_def serialised_plain)
qed

theorem pass_through_witness:
  \<open>POST (Some (js ''key'')) (deeper_than 1000)
      (reply_with (js ''{"overallScore": 250, "extra": [true]}''))
      \<lparr>body_text = js ''{"prompt": "Write something."}''\<rparr> =
    Inr \<lparr>status = 200, headers = [(js ''Content-Type'', js ''application/json'')],
         body = JObj [(js ''overallScore'', JNum (js ''250'')), (js ''extra'', JArr [JBool True])]\<rparr>\<close>
proof -
  define reply where \<open>reply = js ''{"overallScore": 250, "extra": [true]}''\<close>
  define j where "j = JObj [(js ''overallScore'', JNum (js ''250'')), (js ''extra'', JArr [JBool True])]"
  have c: "cleaned reply = reply"
    by (simp add: reply_def cleaning_defs js_def)
  have p: "JSON_parse (cleaned reply) = Some j"
    unfolding c by (simp add: reply_def j_def parser_defs)
  have g: "get_prop (JObj [(js ''prompt'', JStr (js ''Write something.''))]) (js ''prompt'') =
      Some (JStr (js ''Write something.''))"
    by (simp add: get_prop_def)
  have u: "reply_with reply (generate_call (GoogleGenerativeAI (js ''key'')) (js ''Write something.'')) =
      UpstreamText reply"
    by (simp add: reply_with_def)
  have d: "\<not> deeper_than 1000 j"
    by (simp add: j_def deeper_than_def)
  have n: "plain_numbers j"
    by (simp add: j_def number_defs)
  note P = pass_through [where upstream = "reply_with reply" and too_deep = "deeper_than 1000",
      OF sample_key sample_request g sample_nonblank u p d]
  from P [THEN conjunct2] n
  have \<open>POST (Some (js ''key'')) (deeper_than 1000) (reply_with reply)
      \<lparr>body_text = js ''{"prompt": "Write something."}''\<rparr> =
    Inr \<lparr>status = 200, headers = [(js ''Content-Type'', js ''application/json'')], body = j\<rparr>\<close>
    by (rule mp)
  then show ?thesis
    unfolding reply_def j_def by simp
qed

text \<open>
  Claim C1 as stated fails for a number that is too large for a double: the reply
  \<open>{"overallScore": 1e400}\<close> parses to an object whose score is the number of that literal,
  an infinity, and the body of the 200 response has \<open>null\<close> in its place. Likewise a score
  of negative zero arrives as \<open>0\<close>. The order of the members is that of the parsed object,
  not that of the upstream text: of the members \<open>b\<close> and \<open>1\<close>, written in this order, the
  body lists \<open>1\<close> first.
\<close>

theorem overflowing_score_counterexample:
  \<open>JSON_parse (cleaned (js ''{"overallScore": 1e400}'')) =
     Some (JObj [(js ''overallScore'', JNum (js ''1e400''))]) \<and>
   POST (Some (js ''key'')) (deeper_than 1000) (reply_with (js ''{"overallScore": 1e400}''))
      \<lparr>body_text = js ''{"prompt": "Write something."}''\<rparr> =
     Inr \<lparr>status = 200, headers = [(js ''Content-Type'', js ''application/json'')],
          body = JObj [(js ''overallScore'', JNull)]\<rparr> \<and>
   JSON_parse (cleaned (js ''{"overallScore": -0}'')) =
     Some (JObj [(js ''overallScore'', JNum (js ''-0''))]) \<and>
   POST (Some (js ''key'')) (deeper_than 1000) (reply_with (js ''{"overallScore": -0}''))
      \<lparr>body_text = js ''{"prompt": "Write something."}''\<rparr> =
     Inr \<lparr>status = 200, headers = [(js ''Content-Type'', js ''application/json'')],
          body = JObj [(js ''overallScore'', JNum (js ''0''))]\<rparr> \<and>
   POST (Some (js ''key'')) (deeper_than 1000) (reply_with (js ''{"b": 1, "1": 2}''))
      \<lparr>body_text = js ''{"prompt": "Write something."}''\<rparr> =
     Inr \<lparr>status = 200, headers = [(js ''Content-Type'', js ''application/json'')],
          body = JObj [(js ''1'', JNum (js ''2'')), (js ''b'', JNum (js ''1''))]\<rparr>\<close>
proof -
  define big where \<open>big = js ''{"overallScore": 1e400}''\<close>
  define zero where \<open>zero = js ''{"overallScore": -0}''\<close>
  define rq where \<open>rq = \<lparr>body_text = js ''{"prompt": "Write something."}''\<rparr>\<close>
  define keys where \<open>keys = js ''{"b": 1, "1": 2}''\<close>
  have c: "cleaned big = big" "cleaned zero = zero" "cleaned keys = keys"
    by (simp_all add: big_def zero_def keys_def cleaning_defs js_def)
  have p1: "JSON_parse big = Some (JObj [(js ''overallScore'', JNum (js ''1e400''))])"
    by (simp add: big_def parser_defs)
  have p2: "JSON_parse zero = Some (JObj [(js ''overallScore'', JNum (js ''-0''))])"
    by (simp add: zero_def parser_defs)
  have p3: "JSON_parse keys = Some (JObj [(js ''1'', JNum (js ''2'')), (js ''b'', JNum (js ''1''))])"
    by (simp add: keys_def parser_defs)
  have rq: "request_json rq = Some (JObj [(js ''prompt'', JStr (js ''Write something.''))])"
    unfolding rq_def by (rule sample_request)
  have g: "get_prop (JObj [(js ''prompt'', JStr (js ''Write something.''))]) (js ''prompt'') =
      Some (JStr (js ''Write something.''))"
    by (simp add: get_prop_def)
  note A = POST_accepted [OF sample_key rq g sample_nonblank]
  have d: "\<not> deeper_than 1000 (JObj [(js ''overallScore'', JNum (js ''1e400''))])"
    "\<not> deeper_than 1000 (JObj [(js ''overallScore'', JNum (js ''-0''))])"
    "\<not> deeper_than 1000 (JObj [(js ''1'', JNum (js ''2'')), (js ''b'', JNum (js ''1''))])"
    by (simp_all add: deeper_than_def)
  have s1: "serialised (JNum (js ''1e400'')) = JNull"
    by (simp add: number_defs)
  have s2: "serialised (JNum (js ''-0'')) = JNum (js ''0'')"
    by (simp add: number_defs)
  have s3: "serialised (JNum (js ''1'')) = JNum (js ''1'')" "serialised (JNum (js ''2'')) = JNum (js ''2'')"
    by (simp_all add: number_defs)
  have "POST (Some (js ''key'')) (deeper_than 1000) (reply_with big) rq =
      Inr \<lparr>status = 200, headers = [(js ''Content-Type'', js ''application/json'')],
           body = JObj [(js ''overallScore'', JNull)]\<rparr>"
    using p1 d(1) s1 by (simp add: A reply_with_def c json_response_def)
  moreover have "POST (Some (js ''key'')) (deeper_than 1000) (reply_with zero) rq =
      Inr \<lparr>status = 200, headers = [(js ''Content-Type'', js ''application/json'')],
           body = JObj [(js ''overallScore'', JNum (js ''0''))]\<rparr>"
    using p2 d(2) s2 by (simp add: A reply_with_def c json_response_def)
  moreover have "POST (Some (js ''key'')) (deeper_than 1000) (reply_with keys) rq =
      Inr \<lparr>status = 200, headers = [(js ''Content-Type'', js ''application/json'')],
           body = JObj [(js ''1'', JNum (js ''2'')), (js ''b'', JNum (js ''1''))]\<rparr>"
    using p3 d(3) s3 by (simp add: A reply_with_def c json_response_def)
  ultimately show ?thesis
    using p1 p2 c unfolding big_def zero_def keys_def rq_def by simp
qed

text \<open>
  Claim C2. Without a credential (the key is undefined or empty) the endpoint answers with
  the 500 configuration error whatever the request is: the body is not looked at, so a
  malformed body gives this 500 and not a 400.
\<close>

theorem missing_credential_first:
  assumes "apiKey = None \<or> apiKey = Some []"
  shows "POST apiKey too_deep upstream rq = Inr (json_response 500 (error_body missing_key_message)) \<and>
         status (json_response 500 (error_body missing_key_message)) = 500"
  using assms by (simp add: POST_no_key json_response_def)

theorem missing_credential_first_witness:
  "request_json \<lparr>body_text = js ''{not json''\<rparr> = None \<and>
   POST None (deeper_than 1000) upstream_down \<lparr>body_text = js ''{not json''\<rparr> =
     Inr (json_response 500 (error_body missing_key_message)) \<and>
   POST (Some []) (deeper_than 1000) upstream_down \<lparr>body_text = js ''{not json''\<rparr> =
     Inr (json_response 500 (error_body missing_key_message))"
  using missing_credential_first [of None "deeper_than 1000" upstream_down "\<lparr>body_text = js ''{not json''\<rparr>"]
    missing_credential_first [of "Some []" "deeper_than 1000" upstream_down "\<lparr>body_text = js ''{not json''\<rparr>"]
    malformed_request
  by simp

text \<open>
  Claim C3, as amended. The opening marker that the endpoint strips is three backticks
  followed by the word \<open>json\<close> in any letter case, with the white space after it. For every
  JSON text \<open>J\<close>, the reply that wraps \<open>J\<close> in such an opening marker and in a closing marker
  of three backticks (with JSON white space allowed between \<open>J\<close> and the closing marker, and
  any white space around the whole) is cleaned to a text with the same parse as \<open>J\<close>
  alone, so the two responses are identical.
\<close>

theorem fenced_json_same_response:
  assumes "JSON_parse J = Some v" and "json_tag tag" and "list_all isWhiteSpace sp"
    and "list_all isJSONWhiteSpace nl"
    and "list_all isWhiteSpace before" and "list_all isWhiteSpace after"
  shows "JSON_parse (cleaned (before @ fence @ tag @ sp @ J @ nl @ fence @ after)) = Some v \<and>
         JSON_parse (cleaned J) = Some v \<and>
         POST apiKey too_deep (reply_with (before @ fence @ tag @ sp @ J @ nl @ fence @ after)) rq =
         POST apiKey too_deep (reply_with J) rq"
proof -
  from JSON_parse_reads [OF assms(1)] obtain ws c ws' where J: "J = ws @ c @ ws'"
    and ws: "list_all isJSONWhiteSpace ws" "list_all isJSONWhiteSpace ws'"
    and c: "value_reading c v"
    by blast
  have "cleaned J = [] @ c @ []"
    unfolding J using c ws by (simp add: cleaned_json)
  moreover have "JSON_parse ([] @ c @ []) = Some v"
    using c by (intro JSON_parse_reading) simp_all
  ultimately have plain: "JSON_parse (cleaned J) = Some v"
    by simp
  have "cleaned (before @ fence @ tag @ sp @ J @ nl @ fence @ after) = [] @ c @ (ws' @ nl)"
    unfolding J using cleaned_fenced [OF c ws assms(2,3,5,6)] by simp
  moreover have "JSON_parse ([] @ c @ (ws' @ nl)) = Some v"
    using c ws(2) assms(4) by (intro JSON_parse_reading) simp_all
  ultimately have fenced:
    "JSON_parse (cleaned (before @ fence @ tag @ sp @ J @ nl @ fence @ after)) = Some v"
    by simp
  from fenced plain
  have "POST apiKey too_deep (reply_with (before @ fence @ tag @ sp @ J @ nl @ fence @ after)) rq =
        POST apiKey too_deep (reply_with J) rq"
    by (rule POST_same_parse)
  with plain fenced show ?thesis by simp
qed

theorem fenced_json_same_response_witness:
  \<open>JSON_parse (js ''{"overallScore": 42}'') = Some (JObj [(js ''overallScore'', JNum (js ''42''))]) \<and>
   json_tag (js ''JSON'') \<and> list_all isWhiteSpace [0x0D, 0x0A] \<and> list_all isJSONWhiteSpace [0x0A] \<and>
   list_all isWhiteSpace [] \<and> list_all isWhiteSpace [0x0A] \<and>
   POST (Some (js ''key'')) (deeper_than 1000)
     (reply_with ([] @ fence @ js ''JSON'' @ [0x0D, 0x0A] @ js ''{"overallScore": 42}'' @ [0x0A] @
                  fence @ [0x0A]))
     \<lparr>body_text = js ''{"prompt": "Write something."}''\<rparr> =
   Inr \<lparr>status = 200, headers = [(js ''Content-Type'', js ''application/json'')],
        body = JObj [(js ''overallScore'', JNum (js ''42''))]\<rparr>\<close>
proof -
  define plain where \<open>plain = js ''{"overallScore": 42}''\<close>
  define rq where \<open>rq = \<lparr>body_text = js ''{"prompt": "Write something."}''\<rparr>\<close>
  have p: "JSON_parse plain = Some (JObj [(js ''overallScore'', JNum (js ''42''))])"
    unfolding plain_def by (rule sample_analysis)
  have t: "json_tag (js ''JSON'')"
    by (simp add: json_tag_def js_def)
  have s: "list_all isWhiteSpace [0x0D, 0x0A]" "list_all isWhiteSpace []" "list_all isWhiteSpace [0x0A]"
    by (simp_all add: isWhiteSpace_def)
  have n: "list_all isJSONWhiteSpace [0x0A]"
    by (simp add: isJSONWhiteSpace_def)
  note F = fenced_json_same_response [OF p t s(1) n s(2) s(3), of "Some (js ''key'')" "deeper_than 1000" rq]
  have rq: "request_json rq = Some (JObj [(js ''prompt'', JStr (js ''Write something.''))])"
    unfolding rq_def by (rule sample_request)
  have d: "\<not> deeper_than 1000 (JObj [(js ''overallScore'', JNum (js ''42''))])"
    by (simp add: deeper_than_def)
  have w: "serialised (JNum (js ''42'')) = JNum (js ''42'')"
    by (simp add: number_defs)
  have "POST (Some (js ''key'')) (deeper_than 1000) (reply_with plain) rq =
      Inr \<lparr>status = 200, headers = [(js ''Content-Type'', js ''application/json'')],
           body = JObj [(js ''overallScore'', JNum (js ''42''))]\<rparr>"
    using F rq sample_nonblank d w
    by (simp add: POST_cases [OF sample_key] reply_with_def get_prop_def json_response_def)
  with F have "POST (Some (js ''key'')) (deeper_than 1000)
      (reply_with ([] @ fence @ js ''JSON'' @ [0x0D, 0x0A] @ plain @ [0x0A] @ fence @ [0x0A])) rq =
      Inr \<lparr>status = 200, headers = [(js ''Content-Type'', js ''application/json'')],
           body = JObj [(js ''overallScore'', JNum (js ''42''))]\<rparr>"
    by simp
  with p t s n show ?thesis
    unfolding plain_def rq_def by simp
qed

text \<open>
  Claim C3 as stated fails for a fence without the word \<open>json\<close>: the same JSON text gives
  200 when it is sent bare, and 502 when it is wrapped in a plain fence of three backticks
  and a line feed on each side.
\<close>

theorem plain_fence_counterexample:
  \<open>JSON_parse (js ''{"overallScore": 42}'') = Some (JObj [(js ''overallScore'', JNum (js ''42''))]) \<and>
   POST (Some (js ''key'')) (deeper_than 1000) (reply_with (js ''{"overallScore": 42}''))
     \<lparr>body_text = js ''{"prompt": "Write something."}''\<rparr> =
   Inr \<lparr>status = 200, headers = [(js ''Content-Type'', js ''application/json'')],
        body = JObj [(js ''overallScore'', JNum (js ''42''))]\<rparr> \<and>
   POST (Some (js ''key'')) (deeper_than 1000)
     (reply_with (fence @ [0x0A] @ js ''{"overallScore": 42}'' @ [0x0A] @ fence))
     \<lparr>body_text = js ''{"prompt": "Write something."}''\<rparr> =
   Inr \<lparr>status = 502, headers = [(js ''Content-Type'', js ''application/json'')],
        body = JObj [(js ''error'', JStr (js ''Gemini returned an invalid JSON response.'')),
                     (js ''raw'', JStr (fence @ [0x0A] @ js ''{"overallScore": 42}'' @ [0x0A]))]\<rparr>\<close>
proof -
  define plain where \<open>plain = js ''{"overallScore": 42}''\<close>
  define fenced where "fenced = fence @ [0x0A] @ plain @ [0x0A] @ fence"
  define rq where \<open>rq = \<lparr>body_text = js ''{"prompt": "Write something."}''\<rparr>\<close>
  have c1: "cleaned plain = plain"
    by (simp add: plain_def cleaning_defs js_def)
  have c2: "cleaned fenced = fence @ [0x0A] @ plain @ [0x0A]"
    by (simp add: fenced_def plain_def cleaning_defs js_def)
  have p1: "JSON_parse plain = Some (JObj [(js ''overallScore'', JNum (js ''42''))])"
    unfolding plain_def by (rule sample_analysis)
  have p2: "JSON_parse (fence @ [0x0A] @ plain @ [0x0A]) = None"
    by (simp add: plain_def parser_defs fence_def)
  have rq: "request_json rq = Some (JObj [(js ''prompt'', JStr (js ''Write something.''))])"
    unfolding rq_def by (rule sample_request)
  have d: "\<not> deeper_than 1000 (JObj [(js ''overallScore'', JNum (js ''42''))])"
    by (simp add: deeper_than_def)
  have w: "serialised (JNum (js ''42'')) = JNum (js ''42'')"
    by (simp add: number_defs)
  have "POST (Some (js ''key'')) (deeper_than 1000) (reply_with plain) rq =
      Inr \<lparr>status = 200, headers = [(js ''Content-Type'', js ''application/json'')],
           body = JObj [(js ''overallScore'', JNum (js ''42''))]\<rparr>"
    using rq sample_nonblank p1 d w
    by (simp add: POST_cases [OF sample_key] reply_with_def get_prop_def c1 json_response_def)
  moreover have "POST (Some (js ''key'')) (deeper_than 1000) (reply_with fenced) rq =
      Inr \<lparr>status = 502, headers = [(js ''Content-Type'', js ''application/json'')],
           body = JObj [(js ''error'', JStr (js ''Gemini returned an invalid JSON response.'')),
                        (js ''raw'', JStr (fence @ [0x0A] @ plain @ [0x0A]))]\<rparr>"
    using rq sample_nonblank p2
    by (simp add: POST_cases [OF sample_key] reply_with_def get_prop_def c2 json_response_def)
  ultimately show ?thesis
    using p1 unfolding fenced_def plain_def rq_def by simp
qed

text \<open>
  Claim C4. When the upstream text, trimmed and stripped of its fence, does not parse as
  JSON, the endpoint responds with status 502 and a body of two members: \<open>error\<close>, with the
  message "Gemini returned an invalid JSON response.", and \<open>raw\<close>, with the cleaned text as
  it is.
\<close>

theorem invalid_upstream_json:
  assumes "k \<noteq> []"
    and "request_json rq = Some b"
    and "get_prop b (js ''prompt'') = Some (JStr p)"
    and "trim p \<noteq> []"
    and "upstream (generate_call (GoogleGenerativeAI k) p) = UpstreamText t"
    and "JSON_parse (cleaned t) = None"
  shows "POST (Some k) too_deep upstream rq =
           Inr \<lparr>status = 502, headers = [(js ''Content-Type'', js ''application/json'')],
                body = JObj [(js ''error'', JStr (js ''Gemini returned an invalid JSON response.'')),
                             (js ''raw'', JStr (cleaned t))]\<rparr>"
  using assms(5,6) by (simp add: POST_accepted [OF assms(1-4)] json_response_def)

theorem invalid_upstream_json_witness:
  \<open>POST (Some (js ''key'')) (deeper_than 1000)
      (reply_with (js ''  Sure! Here is the analysis: {"overallScore": 42}''))
      \<lparr>body_text = js ''{"prompt": "Write something."}''\<rparr> =
    Inr \<lparr>status = 502, headers = [(js ''Content-Type'', js ''application/json'')],
         body = JObj [(js ''error'', JStr (js ''Gemini returned an invalid JSON response.'')),
                      (js ''raw'', JStr (js ''Sure! Here is the analysis: {"overallScore": 42}''))]\<rparr>\<close>
proof -
  define reply where \<open>reply = js ''  Sure! Here is the analysis: {"overallScore": 42}''\<close>
  define kept where \<open>kept = js ''Sure! Here is the analysis: {"overallScore": 42}''\<close>
  have c: "cleaned reply = kept"
    by (simp add: reply_def kept_def cleaning_defs js_def)
  have p: "JSON_parse (cleaned reply) = None"
    unfolding c by (simp add: kept_def parser_defs)
  have g: "get_prop (JObj [(js ''prompt'', JStr (js ''Write something.''))]) (js ''prompt'') =
      Some (JStr (js ''Write something.''))"
    by (simp add: get_prop_def)
  have u: "reply_with reply (generate_call (GoogleGenerativeAI (js ''key'')) (js ''Write something.'')) =
      UpstreamText reply"
    by (simp add: reply_with_def)
  from invalid_upstream_json [where upstream = "reply_with reply" and too_deep = "deeper_than 1000",
      OF sample_key sample_request g sample_nonblank u p]
  show ?thesis
    unfolding c unfolding reply_def kept_def by simp
qed

text \<open>
  Claim C5. For a \<open>prompt\<close> that is empty or consists of white space only: the endpoint,
  with the credential configured, responds with status 400 and the message
  "Field 'prompt' (non-empty string) is required.", which names the field; and the
  client's Analyze action sets its local validation error and issues no request.
\<close>

theorem blank_prompt:
  assumes "list_all isWhiteSpace p"
  shows "(k \<noteq> [] \<and> request_json rq = Some b \<and> get_prop b (js ''prompt'') = Some (JStr p) \<longrightarrow>
            POST (Some k) too_deep upstream rq =
              Inr \<lparr>status = 400, headers = [(js ''Content-Type'', js ''application/json'')],
                   body = JObj [(js ''error'',
                                 JStr (js ''Field 'prompt' (non-empty string) is required.''))]\<rparr>) \<and>
         (prompt st = p \<longrightarrow>
            handleAnalyze ToString fetch st = (st\<lparr>error := Some (js ''Write a prompt first.'')\<rparr>, []))"
proof (intro conjI impI)
  assume h: "k \<noteq> [] \<and> request_json rq = Some b \<and> get_prop b (js ''prompt'') = Some (JStr p)"
  then have "truthy b"
    using get_prop_object by blast
  then show "POST (Some k) too_deep upstream rq =
      Inr \<lparr>status = 400, headers = [(js ''Content-Type'', js ''application/json'')],
           body = JObj [(js ''error'',
                         JStr (js ''Field 'prompt' (non-empty string) is required.''))]\<rparr>"
    using h trim_blank [OF assms]
    by (simp add: POST_cases prompt_required_message_def json_response_def error_body_def)
next
  assume "prompt st = p"
  then show "handleAnalyze ToString fetch st = (st\<lparr>error := Some (js ''Write a prompt first.'')\<rparr>, [])"
    using trim_blank [OF assms] by (simp add: handleAnalyze_def)
qed

theorem blank_prompt_witness:
  \<open>list_all isWhiteSpace (js ''   '') \<and>
   POST (Some (js ''key'')) (deeper_than 1000) upstream_down \<lparr>body_text = js ''{"prompt": "   "}''\<rparr> =
     Inr \<lparr>status = 400, headers = [(js ''Content-Type'', js ''application/json'')],
          body = JObj [(js ''error'',
                        JStr (js ''Field 'prompt' (non-empty string) is required.''))]\<rparr> \<and>
   handleAnalyze literal_ToString (server_replies (FetchRejected NotAnError))
       (initial_state\<lparr>prompt := js ''   ''\<rparr>) =
     (initial_state\<lparr>prompt := js ''   '', error := Some (js ''Write a prompt first.'')\<rparr>, [])\<close>
proof -
  define rq where \<open>rq = \<lparr>body_text = js ''{"prompt": "   "}''\<rparr>\<close>
  have w: "list_all isWhiteSpace (js ''   '')"
    by (simp add: js_def isWhiteSpace_def)
  have g: "get_prop (JObj [(js ''prompt'', JStr (js ''   ''))]) (js ''prompt'') = Some (JStr (js ''   ''))"
    by (simp add: get_prop_def)
  have rq: "request_json rq = Some (JObj [(js ''prompt'', JStr (js ''   ''))])"
    by (simp add: rq_def request_json_def parser_defs)
  show ?thesis
    using blank_prompt [OF w, of "js ''key''" rq "JObj [(js ''prompt'', JStr (js ''   ''))]"
        "deeper_than 1000" upstream_down "initial_state\<lparr>prompt := js ''   ''\<rparr>" literal_ToString
        "server_replies (FetchRejected NotAnError)"]
      w g rq sample_key
    unfolding rq_def by simp
qed

text \<open>
  Claim C6. The endpoint never lets an exception escape, and its statuses are 200, 400, 500
  and 502. Every response that is not a 200 has a body of the form \<open>{"error": m}\<close>, with
  the field \<open>raw\<close> added on a 502 only. The causes, each with its status and its message:
  500 for a missing credential; 400 for a body that is not JSON; 400 for a missing or
  invalid \<open>prompt\<close>; 500 for a failure of the call to the model; 502 for model output that
  does not parse.
\<close>

theorem error_responses:
  "(apiKey = None \<or> apiKey = Some [] \<longrightarrow>
      POST apiKey too_deep upstream rq =
        Inr \<lparr>status = 500, headers = [(js ''Content-Type'', js ''application/json'')],
             body = JObj [(js ''error'',
                           JStr (js ''Missing GOOGLE_API_KEY. Set it in your server environment (e.g. .env.local).''))]\<rparr>) \<and>
   (apiKey = Some k \<and> k \<noteq> [] \<and> request_json rq = None \<longrightarrow>
      POST apiKey too_deep upstream rq =
        Inr \<lparr>status = 400, headers = [(js ''Content-Type'', js ''application/json'')],
             body = JObj [(js ''error'', JStr (js ''Invalid JSON body.''))]\<rparr>) \<and>
   (apiKey = Some k \<and> k \<noteq> [] \<and> request_json rq = Some b \<and>
    prompt_rejected (get_prop (if truthy b then b else JObj []) (js ''prompt'')) \<longrightarrow>
      POST apiKey too_deep upstream rq =
        Inr \<lparr>status = 400, headers = [(js ''Content-Type'', js ''application/json'')],
             body = JObj [(js ''error'',
                           JStr (js ''Field 'prompt' (non-empty string) is required.''))]\<rparr>) \<and>
   (apiKey = Some k \<and> k \<noteq> [] \<and> request_json rq = Some b \<and>
    get_prop (if truthy b then b else JObj []) (js ''prompt'') = Some (JStr s) \<and> trim s \<noteq> [] \<and>
    upstream (generate_call (GoogleGenerativeAI k) s) = UpstreamError \<longrightarrow>
      POST apiKey too_deep upstream rq =
        Inr \<lparr>status = 500, headers = [(js ''Content-Type'', js ''application/json'')],
             body = JObj [(js ''error'', JStr (js ''Error while calling Gemini API.''))]\<rparr>) \<and>
   (apiKey = Some k \<and> k \<noteq> [] \<and> request_json rq = Some b \<and>
    get_prop (if truthy b then b else JObj []) (js ''prompt'') = Some (JStr s) \<and> trim s \<noteq> [] \<and>
    upstream (generate_call (GoogleGenerativeAI k) s) = UpstreamText t \<and>
    JSON_parse (cleaned t) = None \<longrightarrow>
      POST apiKey too_deep upstream rq =
        Inr \<lparr>status = 502, headers = [(js ''Content-Type'', js ''application/json'')],
             body = JObj [(js ''error'', JStr (js ''Gemini returned an invalid JSON response.'')),
                          (js ''raw'', JStr (cleaned t))]\<rparr>) \<and>
   (\<exists>r. POST apiKey too_deep upstream rq = Inr r \<and>
        (status r = 200 \<or> status r = 400 \<or> status r = 500 \<or> status r = 502) \<and>
        (status r \<noteq> 200 \<longrightarrow>
           (\<exists>m. body r = JObj [(js ''error'', JStr m)]) \<or>
           (status r = 502 \<and> (\<exists>m w. body r = JObj [(js ''error'', JStr m), (js ''raw'', JStr w)]))))"
proof (intro conjI impI)
  assume "apiKey = None \<or> apiKey = Some []"
  then show "POST apiKey too_deep upstream rq =
      Inr \<lparr>status = 500, headers = [(js ''Content-Type'', js ''application/json'')],
           body = JObj [(js ''error'',
                         JStr (js ''Missing GOOGLE_API_KEY. Set it in your server environment (e.g. .env.local).''))]\<rparr>"
    by (simp add: POST_no_key missing_key_message_def json_response_def error_body_def)
next
  assume "apiKey = Some k \<and> k \<noteq> [] \<and> request_json rq = None"
  then show "POST apiKey too_deep upstream rq =
      Inr \<lparr>status = 400, headers = [(js ''Content-Type'', js ''application/json'')],
           body = JObj [(js ''error'', JStr (js ''Invalid JSON body.''))]\<rparr>"
    by (simp add: POST_cases json_response_def error_body_def)
next
  assume h: "apiKey = Some k \<and> k \<noteq> [] \<and> request_json rq = Some b \<and>
    prompt_rejected (get_prop (if truthy b then b else JObj []) (js ''prompt''))"
  then have "POST apiKey too_deep upstream rq =
      Inr (json_response 400 (error_body prompt_required_message))"
    by (auto simp: POST_cases prompt_rejected_iff split: option.splits json.splits)
  then show "POST apiKey too_deep upstream rq =
      Inr \<lparr>status = 400, headers = [(js ''Content-Type'', js ''application/json'')],
           body = JObj [(js ''error'',
                         JStr (js ''Field 'prompt' (non-empty string) is required.''))]\<rparr>"
    by (simp add: prompt_required_message_def json_response_def error_body_def)
next
  assume "apiKey = Some k \<and> k \<noteq> [] \<and> request_json rq = Some b \<and>
    get_prop (if truthy b then b else JObj []) (js ''prompt'') = Some (JStr s) \<and> trim s \<noteq> [] \<and>
    upstream (generate_call (GoogleGenerativeAI k) s) = UpstreamError"
  then show "POST apiKey too_deep upstream rq =
      Inr \<lparr>status = 500, headers = [(js ''Content-Type'', js ''application/json'')],
           body = JObj [(js ''error'', JStr (js ''Error while calling Gemini API.''))]\<rparr>"
    by (simp add: POST_cases json_response_def error_body_def)
next
  assume "apiKey = Some k \<and> k \<noteq> [] \<and> request_json rq = Some b \<and>
    get_prop (if truthy b then b else JObj []) (js ''prompt'') = Some (JStr s) \<and> trim s \<noteq> [] \<and>
    upstream (generate_call (GoogleGenerativeAI k) s) = UpstreamText t \<and>
    JSON_parse (cleaned t) = None"
  then show "POST apiKey too_deep upstream rq =
      Inr \<lparr>status = 502, headers = [(js ''Content-Type'', js ''application/json'')],
           body = JObj [(js ''error'', JStr (js ''Gemini returned an invalid JSON response.'')),
                        (js ''raw'', JStr (cleaned t))]\<rparr>"
    by (simp add: POST_cases json_response_def)
next
  show "\<exists>r. POST apiKey too_deep upstream rq = Inr r \<and>
        (status r = 200 \<or> status r = 400 \<or> status r = 500 \<or> status r = 502) \<and>
        (status r \<noteq> 200 \<longrightarrow>
           (\<exists>m. body r = JObj [(js ''error'', JStr m)]) \<or>
           (status r = 502 \<and> (\<exists>m w. body r = JObj [(js ''error'', JStr m), (js ''raw'', JStr w)])))"
  proof (cases "apiKey = None \<or> apiKey = Some []")
    case True
    then have "POST apiKey too_deep upstream rq = Inr (json_response 500 (error_body missing_key_message))"
      by (rule POST_no_key)
    then show ?thesis
      by (simp add: json_response_def error_body_def)
  next
    case False
    then obtain k' where k': "apiKey = Some k'" "k' \<noteq> []"
      by (cases apiKey) auto
    show ?thesis
      unfolding k'(1) POST_cases [OF k'(2)]
      by (simp add: json_response_def error_body_def
          split: option.splits json.splits upstream_reply.splits)
  qed
qed

theorem error_responses_witness:
  \<open>POST None (deeper_than 1000) upstream_down \<lparr>body_text = js ''{"prompt": "Write something."}''\<rparr> =
     Inr \<lparr>status = 500, headers = [(js ''Content-Type'', js ''application/json'')],
          body = JObj [(js ''error'',
                        JStr (js ''Missing GOOGLE_API_KEY. Set it in your server environment (e.g. .env.local).''))]\<rparr> \<and>
   POST (Some (js ''key'')) (deeper_than 1000) upstream_down \<lparr>body_text = js ''{not json''\<rparr> =
     Inr \<lparr>status = 400, headers = [(js ''Content-Type'', js ''application/json'')],
          body = JObj [(js ''error'', JStr (js ''Invalid JSON body.''))]\<rparr> \<and>
   POST (Some (js ''key'')) (deeper_than 1000) upstream_down \<lparr>body_text = js ''{"prompt": 7}''\<rparr> =
     Inr \<lparr>status = 400, headers = [(js ''Content-Type'', js ''application/json'')],
          body = JObj [(js ''error'',
                        JStr (js ''Field 'prompt' (non-empty string) is required.''))]\<rparr> \<and>
   POST (Some (js ''key'')) (deeper_than 1000) upstream_down
       \<lparr>body_text = js ''{"prompt": "Write something."}''\<rparr> =
     Inr \<lparr>status = 500, headers = [(js ''Content-Type'', js ''application/json'')],
          body = JObj [(js ''error'', JStr (js ''Error while calling Gemini API.''))]\<rparr> \<and>
   POST (Some (js ''key'')) (deeper_than 1000) (reply_with (js ''I cannot help with that.''))
       \<lparr>body_text = js ''{"prompt": "Write something."}''\<rparr> =
     Inr \<lparr>status = 502, headers = [(js ''Content-Type'', js ''application/json'')],
          body = JObj [(js ''error'', JStr (js ''Gemini returned an invalid JSON response.'')),
                       (js ''raw'', JStr (js ''I cannot help with that.''))]\<rparr>\<close>
proof -
  define rq where \<open>rq = \<lparr>body_text = js ''{"prompt": "Write something."}''\<rparr>\<close>
  define bad where \<open>bad = \<lparr>body_text = js ''{not json''\<rparr>\<close>
  define seven where \<open>seven = \<lparr>body_text = js ''{"prompt": 7}''\<rparr>\<close>
  define refusal where "refusal = js ''I cannot help with that.''"
  define engine where "engine = deeper_than 1000"
  have rq: "request_json rq = Some (JObj [(js ''prompt'', JStr (js ''Write something.''))])"
    unfolding rq_def by (rule sample_request)
  have bad: "request_json bad = None"
    unfolding bad_def by (rule malformed_request)
  have seven: "request_json seven = Some (JObj [(js ''prompt'', JNum (js ''7''))])"
    by (simp add: seven_def request_json_def parser_defs)
  have rej: "prompt_rejected (get_prop (if truthy (JObj [(js ''prompt'', JNum (js ''7''))])
      then JObj [(js ''prompt'', JNum (js ''7''))] else JObj []) (js ''prompt''))"
    by (simp add: prompt_rejected_iff get_prop_def)
  have g: "get_prop (if truthy (JObj [(js ''prompt'', JStr (js ''Write something.''))])
      then JObj [(js ''prompt'', JStr (js ''Write something.''))] else JObj []) (js ''prompt'') =
      Some (JStr (js ''Write something.''))"
    by (simp add: get_prop_def)
  have c: "cleaned refusal = refusal"
    by (simp add: refusal_def cleaning_defs js_def)
  have p: "JSON_parse (cleaned refusal) = None"
    unfolding c by (simp add: refusal_def parser_defs)
  have "POST None engine upstream_down rq =
      Inr \<lparr>status = 500, headers = [(js ''Content-Type'', js ''application/json'')],
           body = JObj [(js ''error'',
                         JStr (js ''Missing GOOGLE_API_KEY. Set it in your server environment (e.g. .env.local).''))]\<rparr>"
    using error_responses [of None engine upstream_down rq] by simp
  moreover have "POST (Some (js ''key'')) engine upstream_down bad =
      Inr \<lparr>status = 400, headers = [(js ''Content-Type'', js ''application/json'')],
           body = JObj [(js ''error'', JStr (js ''Invalid JSON body.''))]\<rparr>"
    using error_responses [of "Some (js ''key'')" engine upstream_down bad "js ''key''"] bad sample_key
    by simp
  moreover have "POST (Some (js ''key'')) engine upstream_down seven =
      Inr \<lparr>status = 400, headers = [(js ''Content-Type'', js ''application/json'')],
           body = JObj [(js ''error'',
                         JStr (js ''Field 'prompt' (non-empty string) is required.''))]\<rparr>"
    using error_responses [of "Some (js ''key'')" engine upstream_down seven "js ''key''"
        "JObj [(js ''prompt'', JNum (js ''7''))]"] seven rej sample_key
    by simp
  moreover have "POST (Some (js ''key'')) engine upstream_down rq =
      Inr \<lparr>status = 500, headers = [(js ''Content-Type'', js ''application/json'')],
           body = JObj [(js ''error'', JStr (js ''Error while calling Gemini API.''))]\<rparr>"
    using error_responses [of "Some (js ''key'')" engine upstream_down rq "js ''key''"
        "JObj [(js ''prompt'', JStr (js ''Write something.''))]" "js ''Write something.''"]
      rq g sample_key sample_nonblank
    by (simp add: upstream_down_def)
  moreover have "POST (Some (js ''key'')) engine (reply_with refusal) rq =
      Inr \<lparr>status = 502, headers = [(js ''Content-Type'', js ''application/json'')],
           body = JObj [(js ''error'', JStr (js ''Gemini returned an invalid JSON response.'')),
                        (js ''raw'', JStr refusal)]\<rparr>"
    using error_responses [of "Some (js ''key'')" engine "reply_with refusal" rq "js ''key''"
        "JObj [(js ''prompt'', JStr (js ''Write something.''))]" "js ''Write something.''" refusal]
      rq g sample_key sample_nonblank p
    by (simp add: reply_with_def c)
  ultimately show ?thesis
    unfolding rq_def bad_def seven_def refusal_def engine_def by simp
qed

text \<open>
  Claim C7. When the stored analysis has an \<open>improvedPrompt\<close> that is a string \<open>x\<close> with a
  character that is not white space, "Use improved prompt" sets the prompt text to exactly
  \<open>x\<close>. When there is no analysis, or \<open>improvedPrompt\<close> is absent, empty or white space
  only, the action leaves the state as it is.
\<close>

theorem use_improved_prompt:
  "(get_prop (analysis st) (js ''improvedPrompt'') = Some (JStr x) \<and> \<not> list_all isWhiteSpace x \<longrightarrow>
      handleUseImproved st = Inr (st\<lparr>prompt := x\<rparr>)) \<and>
   (analysis st = JNull \<or>
    get_prop (analysis st) (js ''improvedPrompt'') = None \<or>
    get_prop (analysis st) (js ''improvedPrompt'') = Some (JStr x) \<and> list_all isWhiteSpace x \<longrightarrow>
      handleUseImproved st = Inr st)"
proof (intro conjI impI)
  assume h: "get_prop (analysis st) (js ''improvedPrompt'') = Some (JStr x) \<and> \<not> list_all isWhiteSpace x"
  then have t: "trim x \<noteq> []"
    by (simp add: trim_eq_Nil)
  then have "x \<noteq> []"
    by (rule trim_nonblank)
  moreover have "truthy (analysis st)"
    using h get_prop_object by blast
  ultimately show "handleUseImproved st = Inr (st\<lparr>prompt := x\<rparr>)"
    using h t by (simp add: handleUseImproved_def)
next
  assume h: "analysis st = JNull \<or>
    get_prop (analysis st) (js ''improvedPrompt'') = None \<or>
    get_prop (analysis st) (js ''improvedPrompt'') = Some (JStr x) \<and> list_all isWhiteSpace x"
  then consider (null) "analysis st = JNull"
    | (absent) "get_prop (analysis st) (js ''improvedPrompt'') = None"
    | (blank) "get_prop (analysis st) (js ''improvedPrompt'') = Some (JStr x)" "list_all isWhiteSpace x"
    by auto
  then show "handleUseImproved st = Inr st"
  proof cases
    case null
    then show ?thesis by (simp add: handleUseImproved_def)
  next
    case absent
    then show ?thesis by (simp add: handleUseImproved_def)
  next
    case blank
    then have "trim x = []" by (simp add: trim_eq_Nil)
    with blank(1) show ?thesis by (simp add: handleUseImproved_def)
  qed
qed

theorem use_improved_prompt_witness:
  "handleUseImproved (initial_state\<lparr>analysis := JObj [(js ''improvedPrompt'', JStr (js '' You are a tutor. ''))]\<rparr>) =
     Inr (initial_state\<lparr>analysis := JObj [(js ''improvedPrompt'', JStr (js '' You are a tutor. ''))],
                        prompt := js '' You are a tutor. ''\<rparr>) \<and>
   handleUseImproved initial_state = Inr initial_state \<and>
   handleUseImproved (initial_state\<lparr>analysis := JObj [(js ''overallScore'', JNum (js ''42''))]\<rparr>) =
     Inr (initial_state\<lparr>analysis := JObj [(js ''overallScore'', JNum (js ''42''))]\<rparr>) \<and>
   handleUseImproved (initial_state\<lparr>analysis := JObj [(js ''improvedPrompt'', JStr (js ''  ''))]\<rparr>) =
     Inr (initial_state\<lparr>analysis := JObj [(js ''improvedPrompt'', JStr (js ''  ''))]\<rparr>) \<and>
   handleUseImproved (initial_state\<lparr>analysis := JObj [(js ''improvedPrompt'', JStr [])]\<rparr>) =
     Inr (initial_state\<lparr>analysis := JObj [(js ''improvedPrompt'', JStr [])]\<rparr>)"
proof -
  have a: "\<not> list_all isWhiteSpace (js '' You are a tutor. '')"
    by (simp add: js_def isWhiteSpace_def)
  have b: "list_all isWhiteSpace (js ''  '')" "list_all isWhiteSpace []"
    by (simp_all add: js_def isWhiteSpace_def)
  show ?thesis
    using use_improved_prompt [of "initial_state\<lparr>analysis := JObj [(js ''improvedPrompt'', JStr (js '' You are a tutor. ''))]\<rparr>" "js '' You are a tutor. ''"]
      use_improved_prompt [of initial_state "[]"]
      use_improved_prompt [of "initial_state\<lparr>analysis := JObj [(js ''overallScore'', JNum (js ''42''))]\<rparr>" "[]"]
      use_improved_prompt [of "initial_state\<lparr>analysis := JObj [(js ''improvedPrompt'', JStr (js ''  ''))]\<rparr>" "js ''  ''"]
      use_improved_prompt [of "initial_state\<lparr>analysis := JObj [(js ''improvedPrompt'', JStr [])]\<rparr>" "[]"]
      a b
    by (simp add: get_prop_def initial_state_def js_def)
qed

text \<open>
  Claim C8, as amended. A failed attempt is a rejected fetch, a response whose body cannot
  be read, or a response outside 200..299. In each case the busy flag is cleared, the stored
  analysis and the rest of the state stay as they were, and the error is set: to the server's
  \<open>error\<close> string when the response has one; to "Failed to analyze prompt." when the
  response has no \<open>error\<close> or a null one; to the message of the thrown Error when the
  fetch was rejected or the body could not be read; and to "Unknown error while analyzing."
  when what was thrown is not an Error.
\<close>

theorem failed_analysis:
  assumes "trim (prompt st) \<noteq> []"
  shows
    "(fetch (analyze_call (prompt st)) = FetchRejected (ErrorObject m) \<or>
      fetch (analyze_call (prompt st)) = FetchResponse code (Inl (ErrorObject m)) \<or>
      fetch (analyze_call (prompt st)) = FetchResponse code (Inr d) \<and> \<not> response_ok code \<and>
        get_prop d (js ''error'') = Some (JStr m) \<longrightarrow>
        handleAnalyze ToString fetch st =
          (st\<lparr>isAnalyzing := False, error := Some m\<rparr>, [analyze_call (prompt st)])) \<and>
     (fetch (analyze_call (prompt st)) = FetchResponse code (Inr d) \<and> \<not> response_ok code \<and>
        (d = JNull \<or> get_prop d (js ''error'') = None \<or> get_prop d (js ''error'') = Some JNull) \<longrightarrow>
        handleAnalyze ToString fetch st =
          (st\<lparr>isAnalyzing := False, error := Some (js ''Failed to analyze prompt.'')\<rparr>,
           [analyze_call (prompt st)])) \<and>
     (fetch (analyze_call (prompt st)) = FetchRejected NotAnError \<or>
      fetch (analyze_call (prompt st)) = FetchResponse code (Inl NotAnError) \<longrightarrow>
        handleAnalyze ToString fetch st =
          (st\<lparr>isAnalyzing := False, error := Some (js ''Unknown error while analyzing.'')\<rparr>,
           [analyze_call (prompt st)])) \<and>
     (attempt ToString (fetch (analyze_call (prompt st))) = Inl e \<longrightarrow>
        analysis (fst (handleAnalyze ToString fetch st)) = analysis st \<and>
        isAnalyzing (fst (handleAnalyze ToString fetch st)) = False)"
proof (intro conjI impI)
  assume "fetch (analyze_call (prompt st)) = FetchRejected (ErrorObject m) \<or>
      fetch (analyze_call (prompt st)) = FetchResponse code (Inl (ErrorObject m)) \<or>
      fetch (analyze_call (prompt st)) = FetchResponse code (Inr d) \<and> \<not> response_ok code \<and>
        get_prop d (js ''error'') = Some (JStr m)"
  then have "attempt ToString (fetch (analyze_call (prompt st))) = Inl (ErrorObject m)"
    using error_message_string [of d m ToString] by (auto simp: attempt_def)
  from handleAnalyze_failed [of st ToString fetch, OF assms this]
  show "handleAnalyze ToString fetch st =
          (st\<lparr>isAnalyzing := False, error := Some m\<rparr>, [analyze_call (prompt st)])"
    by (simp add: caught_message_def)
next
  assume "fetch (analyze_call (prompt st)) = FetchResponse code (Inr d) \<and> \<not> response_ok code \<and>
        (d = JNull \<or> get_prop d (js ''error'') = None \<or> get_prop d (js ''error'') = Some JNull)"
  then have "attempt ToString (fetch (analyze_call (prompt st))) =
      Inl (ErrorObject (js ''Failed to analyze prompt.''))"
    using error_message_fallback [of d ToString] by (auto simp: attempt_def)
  from handleAnalyze_failed [of st ToString fetch, OF assms this]
  show "handleAnalyze ToString fetch st =
          (st\<lparr>isAnalyzing := False, error := Some (js ''Failed to analyze prompt.'')\<rparr>,
           [analyze_call (prompt st)])"
    by (simp add: caught_message_def)
next
  assume "fetch (analyze_call (prompt st)) = FetchRejected NotAnError \<or>
      fetch (analyze_call (prompt st)) = FetchResponse code (Inl NotAnError)"
  then have "attempt ToString (fetch (analyze_call (prompt st))) = Inl NotAnError"
    by (auto simp: attempt_def)
  from handleAnalyze_failed [of st ToString fetch, OF assms this]
  show "handleAnalyze ToString fetch st =
          (st\<lparr>isAnalyzing := False, error := Some (js ''Unknown error while analyzing.'')\<rparr>,
           [analyze_call (prompt st)])"
    by (simp add: caught_message_def)
next
  assume a: "attempt ToString (fetch (analyze_call (prompt st))) = Inl e"
  show "analysis (fst (handleAnalyze ToString fetch st)) = analysis st"
    by (simp add: handleAnalyze_failed [of st ToString fetch, OF assms a])
  show "isAnalyzing (fst (handleAnalyze ToString fetch st)) = False"
    by (simp add: handleAnalyze_failed [of st ToString fetch, OF assms a])
qed

theorem failed_analysis_witness:
  "trim (prompt analysed_state) \<noteq> [] \<and>
   handleAnalyze literal_ToString
     (server_replies (FetchResponse 502 (Inr (JObj [(js ''error'', JStr (js ''Gemini returned an invalid JSON response.''))]))))
     analysed_state =
     (analysed_state\<lparr>error := Some (js ''Gemini returned an invalid JSON response.'')\<rparr>,
      [analyze_call (js ''Write something.'')]) \<and>
   handleAnalyze literal_ToString (server_replies (FetchResponse 500 (Inr (JObj [])))) analysed_state =
     (analysed_state\<lparr>error := Some (js ''Failed to analyze prompt.'')\<rparr>,
      [analyze_call (js ''Write something.'')]) \<and>
   handleAnalyze literal_ToString (server_replies (FetchRejected NotAnError)) analysed_state =
     (analysed_state\<lparr>error := Some (js ''Unknown error while analyzing.'')\<rparr>,
      [analyze_call (js ''Write something.'')])"
proof -
  have p: "prompt analysed_state = js ''Write something.''"
    by (simp add: analysed_state_def)
  have t: "trim (prompt analysed_state) \<noteq> []"
    unfolding p by (rule sample_nonblank)
  have nok: "\<not> response_ok 502" "\<not> response_ok 500"
    by (simp_all add: response_ok_def)
  have g: "get_prop (JObj [(js ''error'', JStr (js ''Gemini returned an invalid JSON response.''))]) (js ''error'')
      = Some (JStr (js ''Gemini returned an invalid JSON response.''))"
    "get_prop (JObj []) (js ''error'') = None"
    by (simp_all add: get_prop_def)
  show ?thesis
    using
      failed_analysis [OF t, of "server_replies (FetchResponse 502 (Inr (JObj [(js ''error'', JStr (js ''Gemini returned an invalid JSON response.''))])))"
        "js ''Gemini returned an invalid JSON response.''" 502 "JObj [(js ''error'', JStr (js ''Gemini returned an invalid JSON response.''))]" literal_ToString]
      failed_analysis [OF t, of "server_replies (FetchResponse 500 (Inr (JObj [])))" "[]" 500 "JObj []" literal_ToString]
      failed_analysis [OF t, of "server_replies (FetchRejected NotAnError)" "[]" 0 JNull literal_ToString]
      t nok g
    by (simp add: server_replies_def p) (simp add: analysed_state_def)
qed

text \<open>
  Claim C8 as stated fails where an Error is thrown: the error shown is the message of that
  Error, which is neither sent by the server as \<open>error\<close> nor one of the two fixed fallback
  texts. Two inputs: a fetch rejected with "Failed to fetch", and a 502 whose body
  \<open>response.json()\<close> cannot read.
\<close>

theorem thrown_message_counterexample:
  "error (fst (handleAnalyze literal_ToString
                 (server_replies (FetchRejected (ErrorObject (js ''Failed to fetch'')))) analysed_state)) =
     Some (js ''Failed to fetch'') \<and>
   error (fst (handleAnalyze literal_ToString
                 (server_replies (FetchResponse 502 (Inl (ErrorObject (js ''Unexpected token''))))) analysed_state)) =
     Some (js ''Unexpected token'') \<and>
   js ''Failed to fetch'' \<noteq> js ''Failed to analyze prompt.'' \<and>
   js ''Failed to fetch'' \<noteq> js ''Unknown error while analyzing.'' \<and>
   js ''Unexpected token'' \<noteq> js ''Failed to analyze prompt.'' \<and>
   js ''Unexpected token'' \<noteq> js ''Unknown error while analyzing.''"
  by (simp add: handleAnalyze_def attempt_def caught_message_def server_replies_def
      analysed_state_def trim_def isWhiteSpace_def js_def)

text \<open>
  Claim C9. While no analysis has run (the stored analysis is null), the overall score is 0
  and the criteria shown are the five fixed ones, in order, each with score 0 and level
  "missing".
\<close>

theorem placeholders_before_analysis:
  assumes "analysis st = JNull"
  shows "overallScore st = JNum (js ''0'') \<and>
         criteriaScores st = JArr (map placeholder criteria) \<and>
         map (\<lambda>c. get_prop c (js ''id'')) (map placeholder criteria) =
           [Some (JStr (js ''context'')), Some (JStr (js ''goal'')), Some (JStr (js ''format'')),
            Some (JStr (js ''constraints'')), Some (JStr (js ''examples''))] \<and>
         list_all (\<lambda>c. get_prop c (js ''score'') = Some (JNum (js ''0'')) \<and>
                        get_prop c (js ''level'') = Some (JStr (js ''missing'')))
           (map placeholder criteria)"
  using assms
  by (simp add: overallScore_def criteriaScores_def opt_chain_def nullish_or_def
      placeholder_def criteria_def get_prop_def js_def)

theorem placeholders_before_analysis_witness:
  "analysis initial_state = JNull \<and>
   overallScore initial_state = JNum (js ''0'') \<and>
   criteriaScores initial_state = JArr (map placeholder criteria) \<and>
   length (map placeholder criteria) = 5"
  using placeholders_before_analysis [of initial_state]
  by (simp add: initial_state_def criteria_def)

text \<open>
  Claim C10. With the credential configured, a body that parses as JSON but is not an
  object with a \<open>prompt\<close> member (null, a boolean, a number, a string, an array, an object
  without \<open>prompt\<close>) makes no exception escape: the response is the one for a missing
  prompt, status 400 with the message "Field 'prompt' (non-empty string) is required.".
\<close>

theorem body_without_prompt:
  assumes "k \<noteq> []"
    and "request_json rq = Some b"
    and "\<not> (\<exists>ms v. b = JObj ms \<and> map_of ms (js ''prompt'') = Some v)"
  shows "POST (Some k) too_deep upstream rq =
           Inr \<lparr>status = 400, headers = [(js ''Content-Type'', js ''application/json'')],
                body = JObj [(js ''error'',
                              JStr (js ''Field 'prompt' (non-empty string) is required.''))]\<rparr>"
proof -
  have none: "get_prop b (js ''prompt'') = None"
    using assms(3) by (cases b) (auto simp: get_prop_def)
  have "get_prop (if truthy b then b else JObj []) (js ''prompt'') = None"
    using none by (simp add: get_prop_def)
  then show ?thesis
    using assms(1,2) by (simp add: POST_cases prompt_required_message_def json_response_def error_body_def)
qed

theorem body_without_prompt_witness:
  \<open>POST (Some (js ''key'')) (deeper_than 1000) upstream_down \<lparr>body_text = js ''null''\<rparr> =
     Inr \<lparr>status = 400, headers = [(js ''Content-Type'', js ''application/json'')],
          body = JObj [(js ''error'', JStr (js ''Field 'prompt' (non-empty string) is required.''))]\<rparr> \<and>
   POST (Some (js ''key'')) (deeper_than 1000) upstream_down \<lparr>body_text = js ''false''\<rparr> =
     Inr \<lparr>status = 400, headers = [(js ''Content-Type'', js ''application/json'')],
          body = JObj [(js ''error'', JStr (js ''Field 'prompt' (non-empty string) is required.''))]\<rparr> \<and>
   POST (Some (js ''key'')) (deeper_than 1000) upstream_down \<lparr>body_text = js ''true''\<rparr> =
     Inr \<lparr>status = 400, headers = [(js ''Content-Type'', js ''application/json'')],
          body = JObj [(js ''error'', JStr (js ''Field 'prompt' (non-empty string) is required.''))]\<rparr> \<and>
   POST (Some (js ''key'')) (deeper_than 1000) upstream_down \<lparr>body_text = js ''0''\<rparr> =
     Inr \<lparr>status = 400, headers = [(js ''Content-Type'', js ''application/json'')],
          body = JObj [(js ''error'', JStr (js ''Field 'prompt' (non-empty string) is required.''))]\<rparr> \<and>
   POST (Some (js ''key'')) (deeper_than 1000) upstream_down \<lparr>body_text = js ''42''\<rparr> =
     Inr \<lparr>status = 400, headers = [(js ''Content-Type'', js ''application/json'')],
          body = JObj [(js ''error'', JStr (js ''Field 'prompt' (non-empty string) is required.''))]\<rparr> \<and>
   POST (Some (js ''key'')) (deeper_than 1000) upstream_down \<lparr>body_text = js ''""''\<rparr> =
     Inr \<lparr>status = 400, headers = [(js ''Content-Type'', js ''application/json'')],
          body = JObj [(js ''error'', JStr (js ''Field 'prompt' (non-empty string) is required.''))]\<rparr> \<and>
   POST (Some (js ''key'')) (deeper_than 1000) upstream_down \<lparr>body_text = js ''"prompt"''\<rparr> =
     Inr \<lparr>status = 400, headers = [(js ''Content-Type'', js ''application/json'')],
          body = JObj [(js ''error'', JStr (js ''Field 'prompt' (non-empty string) is required.''))]\<rparr> \<and>
   POST (Some (js ''key'')) (deeper_than 1000) upstream_down \<lparr>body_text = js ''["prompt"]''\<rparr> =
     Inr \<lparr>status = 400, headers = [(js ''Content-Type'', js ''application/json'')],
          body = JObj [(js ''error'', JStr (js ''Field 'prompt' (non-empty string) is required.''))]\<rparr> \<and>
   POST (Some (js ''key'')) (deeper_than 1000) upstream_down \<lparr>body_text = js ''{"text": "hi"}''\<rparr> =
     Inr \<lparr>status = 400, headers = [(js ''Content-Type'', js ''application/json'')],
          body = JObj [(js ''error'', JStr (js ''Field 'prompt' (non-empty string) is required.''))]\<rparr>\<close>
  by (intro conjI; rule body_without_prompt [OF sample_key];
      simp add: request_json_def json_texts; simp add: js_def)

end
